theory Spec2Isabelle
  imports Main "HOL-Library.Word"
begin

unbundle bit_operations_syntax

section \<open>Machine model\<close>

text \<open>
  The allocators of \<^verbatim>\<open>custom_allocator.h\<close> compute with \<^verbatim>\<open>size_t\<close> and cast every pointer to
  \<^verbatim>\<open>std::uint64_t\<close>, so both are 64-bit words here: \<open>+\<close>, \<open>-\<close> and \<open>*\<close> wrap around,
  \<open>div\<close> and \<open>mod\<close> are the unsigned operations, \<open>unat\<close> reads the mathematical value.
  \<^verbatim>\<open>nullptr\<close> is the address 0.
\<close>

type_synonym size_t = "64 word"
type_synonym addr = "64 word"

abbreviation nullptr :: addr where
  "nullptr \<equiv> 0"

text \<open>The errors of the taxonomy that the modelled functions can raise, and two failures of
  the language itself: an integer division by zero and a rejected \<^verbatim>\<open>static_assert\<close>.\<close>

datatype error =
    InvalidAlignment
  | OutOfMemory
  | SizeMismatch
  | LeakAtTeardown
  | DivisionByZero
  | StaticAssertFailed

text \<open>Modelled from the spec: the macro \<^verbatim>\<open>neko_assert\<close> of \<^verbatim>\<open>engine/assert.h\<close> is not
  among the sources. It is taken as the fail-fast check of the error handling design: when the
  condition is false the operation stops with the error that the taxonomy names for it,
  otherwise execution continues.\<close>

definition neko_assert :: "bool \<Rightarrow> error \<Rightarrow> error + unit" where
  "neko_assert expr e = (if expr then Inr () else Inl e)"


section \<open>Alignment primitives\<close>

definition CalculateAlignForwardAdjustment :: "addr \<Rightarrow> size_t \<Rightarrow> error + size_t" where
  "CalculateAlignForwardAdjustment address alignment =
     (case neko_assert ((alignment AND (alignment - 1)) = 0) InvalidAlignment of
        Inl e \<Rightarrow> Inl e
      | Inr _ \<Rightarrow>
          (let adjustment = alignment - (address AND (alignment - 1))
           in if adjustment = alignment then Inr 0 else Inr adjustment))"

text \<open>The division \<^verbatim>\<open>neededSpace / alignment\<close> is only reached when the adjustment is smaller
  than the header; with a zero alignment it is a division by zero.\<close>

definition CalculateAlignForwardAdjustmentWithHeader ::
    "addr \<Rightarrow> size_t \<Rightarrow> size_t \<Rightarrow> error + size_t" where
  "CalculateAlignForwardAdjustmentWithHeader address alignment headerSize =
     (case CalculateAlignForwardAdjustment address alignment of
        Inl e \<Rightarrow> Inl e
      | Inr adjustment \<Rightarrow>
          (let neededSpace = headerSize
           in if adjustment < neededSpace
              then (let neededSpace = neededSpace - adjustment
                    in if alignment = 0 then Inl DivisionByZero
                       else (let adjustment = adjustment + alignment * (neededSpace div alignment);
                                 adjustment = (if neededSpace mod alignment > 0
                                               then adjustment + alignment else adjustment)
                             in Inr adjustment))
              else Inr adjustment))"

definition AlignForward :: "addr \<Rightarrow> size_t \<Rightarrow> error + addr" where
  "AlignForward address alignment =
     (case CalculateAlignForwardAdjustment address alignment of
        Inl e \<Rightarrow> Inl e
      | Inr adjustment \<Rightarrow> Inr (address + adjustment))"

definition AlignForwardWithHeader :: "addr \<Rightarrow> size_t \<Rightarrow> size_t \<Rightarrow> error + addr" where
  "AlignForwardWithHeader address alignment headerSize =
     (case CalculateAlignForwardAdjustmentWithHeader address alignment headerSize of
        Inl e \<Rightarrow> Inl e
      | Inr adjustment \<Rightarrow> Inr (address + adjustment))"

text \<open>The powers of two that a \<^verbatim>\<open>size_t\<close> can hold.\<close>

definition power_of_two :: "size_t \<Rightarrow> bool" where
  "power_of_two a \<longleftrightarrow> (\<exists>k \<in> {0..<64}. a = 2 ^ k)"


section \<open>The allocator base class\<close>

text \<open>The members \<^verbatim>\<open>start_\<close>, \<^verbatim>\<open>size_\<close>, \<^verbatim>\<open>usedMemory_\<close> and \<^verbatim>\<open>numAllocations_\<close>; a name
  cannot end in an underscore here, so each carries the suffix \<open>m\<close>. A derived class is an
  extension of this record, and the functions of the base class work on every extension.\<close>

record Allocator =
  start_m :: addr
  size_m :: size_t
  usedMemory_m :: size_t
  numAllocations_m :: size_t

definition Allocator_ctor :: "size_t \<Rightarrow> addr \<Rightarrow> Allocator" where
  "Allocator_ctor size' start =
     \<lparr>start_m = start, size_m = size', usedMemory_m = 0, numAllocations_m = 0\<rparr>"

definition Allocator_dtor :: "'a Allocator_scheme \<Rightarrow> error + 'a Allocator_scheme" where
  "Allocator_dtor a =
     (case neko_assert (numAllocations_m a = 0 \<and> usedMemory_m a = 0) LeakAtTeardown of
        Inl e \<Rightarrow> Inl e
      | Inr _ \<Rightarrow> Inr (a\<lparr>start_m := nullptr, size_m := 0\<rparr>))"

definition GetUsedMemory :: "'a Allocator_scheme \<Rightarrow> size_t" where
  "GetUsedMemory a = usedMemory_m a"


definition GetSize :: "'a Allocator_scheme \<Rightarrow> size_t" where
  "GetSize a = size_m a"


section \<open>The derived classes and their destructors\<close>

text \<open>A destructor of a derived class runs its own body and then the destructor of the base
  class. \<^verbatim>\<open>StackAllocator\<close> is taken with \<^verbatim>\<open>NEKO_ASSERT\<close> defined, as the assertions are.\<close>

record LinearAllocator = Allocator +
  currentPos_m :: addr

definition LinearAllocator_dtor :: "LinearAllocator \<Rightarrow> error + LinearAllocator" where
  "LinearAllocator_dtor a = Allocator_dtor (a\<lparr>LinearAllocator.currentPos_m := nullptr\<rparr>)"

record StackAllocator = Allocator +
  currentPos_m :: addr
  prevPos_m :: addr

definition StackAllocator_dtor :: "StackAllocator \<Rightarrow> error + StackAllocator" where
  "StackAllocator_dtor a =
     Allocator_dtor (a\<lparr>StackAllocator.currentPos_m := nullptr, prevPos_m := nullptr\<rparr>)"

record FreeListAllocator = Allocator +
  freeBlocks_m :: addr

definition FreeListAllocator_dtor :: "FreeListAllocator \<Rightarrow> error + FreeListAllocator" where
  "FreeListAllocator_dtor a = Allocator_dtor (a\<lparr>FreeListAllocator.freeBlocks_m := nullptr\<rparr>)"

record PoolAllocator = Allocator +
  freeBlocks_m :: addr

definition PoolAllocator_dtor :: "PoolAllocator \<Rightarrow> error + PoolAllocator" where
  "PoolAllocator_dtor a = Allocator_dtor (a\<lparr>PoolAllocator.freeBlocks_m := nullptr\<rparr>)"

text \<open>A \<^verbatim>\<open>ProxyAllocator\<close> holds a reference to the wrapped allocator: a handle \<open>'r\<close> into a
  store of allocators. Its destructor is the default one.\<close>

record 'r ProxyAllocator = Allocator +
  allocator_m :: 'r

definition ProxyAllocator_dtor :: "'r ProxyAllocator \<Rightarrow> error + 'r ProxyAllocator" where
  "ProxyAllocator_dtor a = Allocator_dtor a"



section \<open>The pool allocator\<close>

text \<open>
  The memory that the pool threads its free list through: the value of the \<^verbatim>\<open>next\<close> member of
  the \<^verbatim>\<open>FreeBlock\<close> at each address. A \<^verbatim>\<open>FreeBlock\<close> is one pointer, 8 bytes. The slots of a
  pool are at least that far apart (the \<^verbatim>\<open>static_assert\<close>), so the blocks at two different
  slots do not overlap and a write to one leaves the other as it is.
\<close>

type_synonym memory = "addr \<Rightarrow> addr"

definition sizeof_ptr :: size_t where
  "sizeof_ptr = 8"

text \<open>The template parameter \<^verbatim>\<open>T\<close>, as far as the pool looks at it.\<close>

record element_type =
  sizeofT :: size_t
  alignofT :: size_t

text \<open>What the language guarantees of every object type: its alignment is a power of two and
  its size is a nonzero multiple of its alignment.\<close>

definition valid_element_type :: "element_type \<Rightarrow> bool" where
  "valid_element_type T \<longleftrightarrow>
     power_of_two (alignofT T) \<and> sizeofT T \<noteq> 0 \<and> unat (alignofT T) dvd unat (sizeofT T)"

text \<open>The loop of the constructor, from the value \<open>i\<close> of its counter on. The bound
  \<^verbatim>\<open>numObjects - 1\<close> is computed in \<^verbatim>\<open>size_t\<close>: for \<^verbatim>\<open>numObjects = 0\<close> it is \<open>2 ^ 64 - 1\<close>.\<close>

function PoolAllocator_ctor_loop ::
    "size_t \<Rightarrow> size_t \<Rightarrow> size_t \<Rightarrow> addr \<Rightarrow> memory \<Rightarrow> addr \<times> memory" where
  "PoolAllocator_ctor_loop sz numObjects i freeBlock mem =
     (if i < numObjects - 1
      then (let mem' = mem(freeBlock := freeBlock + sz);
                freeBlock' = mem' freeBlock
            in PoolAllocator_ctor_loop sz numObjects (i + 1) freeBlock' mem')
      else (freeBlock, mem))"
  by pat_completeness auto
termination
proof (relation "measure (\<lambda>(sz, numObjects, i, freeBlock, mem). unat (numObjects - 1) - unat i)")
  show "wf (measure (\<lambda>(sz, numObjects, i, freeBlock, mem). unat (numObjects - 1) - unat i))"
    by simp
next
  fix sz numObjects i :: size_t and freeBlock :: addr and mem mem' :: memory and freeBlock' :: addr
  assume lt: "i < numObjects - 1"
  then have "unat i < unat (numObjects - 1)" by (simp add: word_less_nat_alt)
  moreover have "unat (numObjects - 1) < 2 ^ LENGTH(64)" by (rule unsigned_less)
  ultimately have "unat i + unat (1::size_t) < 2 ^ LENGTH(64)" by simp
  then have "unat (i + 1) = unat i + 1" by (simp add: unat_add_lem [THEN iffD1])
  with \<open>unat i < unat (numObjects - 1)\<close>
  show "((sz, numObjects, i + 1, freeBlock', mem'), (sz, numObjects, i, freeBlock, mem))
          \<in> measure (\<lambda>(sz, numObjects, i, freeBlock, mem). unat (numObjects - 1) - unat i)"
    by simp
qed

declare PoolAllocator_ctor_loop.simps [simp del]

text \<open>The constructor. An instantiation with \<^verbatim>\<open>sizeof(T) < sizeof(void*)\<close> does not compile.\<close>

definition PoolAllocator_ctor ::
    "element_type \<Rightarrow> size_t \<Rightarrow> addr \<Rightarrow> memory \<Rightarrow> error + (PoolAllocator \<times> memory)" where
  "PoolAllocator_ctor T size' mem m =
     (if sizeofT T < sizeof_ptr then Inl StaticAssertFailed
      else case CalculateAlignForwardAdjustment mem (alignofT T) of
        Inl e \<Rightarrow> Inl e
      | Inr adjustment \<Rightarrow>
          (let freeBlocks = mem + adjustment;
               numObjects = (size' - adjustment) div sizeofT T;
               (freeBlock, m') = PoolAllocator_ctor_loop (sizeofT T) numObjects 0 freeBlocks m
           in Inr (Allocator.extend (Allocator_ctor size' mem) (PoolAllocator.fields freeBlocks),
                   m'(freeBlock := nullptr))))"

text \<open>\<^verbatim>\<open>Allocate\<close> returns the outcome together with the allocator and the memory as they are
  when it stops: a failed assertion stops it before anything is assigned.\<close>

fun PoolAllocator_Allocate ::
    "element_type \<Rightarrow> size_t \<Rightarrow> size_t \<Rightarrow> PoolAllocator \<times> memory
       \<Rightarrow> (error + addr) \<times> (PoolAllocator \<times> memory)" where
  "PoolAllocator_Allocate T allocatedSize alignment (a, m) =
     (case neko_assert (allocatedSize = sizeofT T \<and> alignment = alignofT T) SizeMismatch of
        Inl e \<Rightarrow> (Inl e, (a, m))
      | Inr _ \<Rightarrow>
          (case (if freeBlocks_m a = nullptr then neko_assert False OutOfMemory else Inr ()) of
             Inl e \<Rightarrow> (Inl e, (a, m))
           | Inr _ \<Rightarrow>
               (let p = freeBlocks_m a
                in (Inr p,
                    (a\<lparr>freeBlocks_m := m (freeBlocks_m a),
                       usedMemory_m := usedMemory_m a + allocatedSize,
                       numAllocations_m := numAllocations_m a + 1\<rparr>,
                     m)))))"

fun PoolAllocator_Deallocate ::
    "element_type \<Rightarrow> addr \<Rightarrow> PoolAllocator \<times> memory \<Rightarrow> PoolAllocator \<times> memory" where
  "PoolAllocator_Deallocate T p (a, m) =
     (let freeBlock = p;
          m' = m(freeBlock := freeBlocks_m a)
      in (a\<lparr>freeBlocks_m := freeBlock,
             usedMemory_m := usedMemory_m a - sizeofT T,
             numAllocations_m := numAllocations_m a - 1\<rparr>,
          m'))"


section \<open>Sequences of pool operations\<close>

text \<open>\<open>n\<close> consecutive calls of \<^verbatim>\<open>Allocate(sizeof(T), alignof(T))\<close>, stopping at the first that
  fails; the addresses come in the order of the calls.\<close>

fun allocate_n ::
    "element_type \<Rightarrow> nat \<Rightarrow> PoolAllocator \<times> memory
       \<Rightarrow> (error + addr list) \<times> (PoolAllocator \<times> memory)" where
  "allocate_n T 0 st = (Inr [], st)"
| "allocate_n T (Suc n) st =
     (case PoolAllocator_Allocate T (sizeofT T) (alignofT T) st of
        (Inl e, st') \<Rightarrow> (Inl e, st')
      | (Inr p, st') \<Rightarrow>
          (case allocate_n T n st' of
             (Inl e, st'') \<Rightarrow> (Inl e, st'')
           | (Inr ps, st'') \<Rightarrow> (Inr (p # ps), st'')))"

text \<open>\<^verbatim>\<open>Deallocate\<close> called on each address of a list, from its head on.\<close>

definition deallocate_all ::
    "element_type \<Rightarrow> addr list \<Rightarrow> PoolAllocator \<times> memory \<Rightarrow> PoolAllocator \<times> memory" where
  "deallocate_all T ps st = fold (PoolAllocator_Deallocate T) ps st"

text \<open>A sequence of calls through the interface, run from a state and the list of live
  addresses. The result is \<open>None\<close> when a call of \<^verbatim>\<open>Allocate\<close> fails or an address passed to
  \<^verbatim>\<open>Deallocate\<close> is not live: such a sequence is not one of successful calls on live
  pointers.\<close>

datatype pool_op = Allocate | Deallocate addr

fun run_ops ::
    "element_type \<Rightarrow> pool_op list \<Rightarrow> PoolAllocator \<times> memory \<Rightarrow> addr list
       \<Rightarrow> ((PoolAllocator \<times> memory) \<times> addr list) option" where
  "run_ops T [] st live = Some (st, live)"
| "run_ops T (Allocate # ops) st live =
     (case PoolAllocator_Allocate T (sizeofT T) (alignofT T) st of
        (Inl e, st') \<Rightarrow> None
      | (Inr p, st') \<Rightarrow> run_ops T ops st' (p # live))"
| "run_ops T (Deallocate p # ops) st live =
     (if p \<in> set live then run_ops T ops (PoolAllocator_Deallocate T p st) (remove1 p live)
      else None)"

fun is_Allocate :: "pool_op \<Rightarrow> bool" where
  "is_Allocate Allocate = True"
| "is_Allocate (Deallocate p) = False"


section \<open>The operations of the proxy allocator\<close>







section \<open>Free lists, slots and the arena\<close>

text \<open>The free list that starts at \<open>p\<close> visits exactly the addresses \<open>xs\<close>, in this order, and
  ends with \<^verbatim>\<open>nullptr\<close>.\<close>

fun free_list :: "memory \<Rightarrow> addr \<Rightarrow> addr list \<Rightarrow> bool" where
  "free_list m p [] \<longleftrightarrow> p = nullptr"
| "free_list m p (x # xs) \<longleftrightarrow> p = x \<and> p \<noteq> nullptr \<and> free_list m (m p) xs"

text \<open>The address of slot \<open>i\<close> of a pool whose first slot is at \<open>first\<close>, and the first \<open>n\<close>
  slots in ascending order.\<close>

definition slot :: "addr \<Rightarrow> size_t \<Rightarrow> nat \<Rightarrow> addr" where
  "slot first sz i = first + of_nat i * sz"

definition slots :: "addr \<Rightarrow> size_t \<Rightarrow> nat \<Rightarrow> addr list" where
  "slots first sz n = map (slot first sz) [0..<n]"

text \<open>The \<^verbatim>\<open>FreeBlock\<close> at address \<open>a\<close> lies inside the arena of \<open>size'\<close> bytes at \<open>mem\<close>.\<close>

definition in_arena :: "addr \<Rightarrow> size_t \<Rightarrow> addr \<Rightarrow> bool" where
  "in_arena mem size' a \<longleftrightarrow>
     unat mem \<le> unat a \<and> unat a + unat sizeof_ptr \<le> unat mem + unat size'"

text \<open>The number of slots that fit, as a number:
  \<open>floor ((size - adjustment) / sizeof(T))\<close>, negative when the adjustment exceeds the size.\<close>

definition slots_that_fit :: "element_type \<Rightarrow> size_t \<Rightarrow> size_t \<Rightarrow> int" where
  "slots_that_fit T size' adjustment =
     (int (unat size') - int (unat adjustment)) div int (unat (sizeofT T))"

text \<open>What links a state of the pool to the list \<open>fl\<close> of its free slots and the list \<open>live\<close>
  of the slots handed out: the free list visits \<open>fl\<close>, no slot is in both or twice in one, none
  is \<^verbatim>\<open>nullptr\<close>, together they are the slots \<open>S\<close> of the pool, and the counters count \<open>live\<close>.\<close>

definition pool_inv ::
    "element_type \<Rightarrow> addr set \<Rightarrow> PoolAllocator \<times> memory \<Rightarrow> addr list \<Rightarrow> addr list \<Rightarrow> bool" where
  "pool_inv T S st fl live \<longleftrightarrow>
     free_list (snd st) (freeBlocks_m (fst st)) fl \<and>
     distinct (fl @ live) \<and> nullptr \<notin> set (fl @ live) \<and> S = set (fl @ live) \<and>
     numAllocations_m (fst st) = of_nat (length live) \<and>
     usedMemory_m (fst st) = of_nat (length live) * sizeofT T"


section \<open>Alignment primitives: proofs\<close>

subsection \<open>Words and powers of two\<close>

lemma unat_pow2: "k < 64 \<Longrightarrow> unat ((2::64 word) ^ k) = 2 ^ k"
proof -
  assume k: "k < 64"
  have "(2::64 word) ^ k = of_nat (2 ^ k)" by simp
  then have "unat ((2::64 word) ^ k) = (2 ^ k) mod 2 ^ LENGTH(64)"
    by (simp only: unat_of_nat)
  moreover have "(2::nat) ^ k < 2 ^ LENGTH(64)"
    using k by (intro power_strict_increasing) simp_all
  ultimately show ?thesis by (simp only: mod_less)
qed

lemma power_of_twoE:
  assumes "power_of_two a"
  obtains k where "k < 64" and "a = 2 ^ k" and "unat a = 2 ^ k"
  using assms unat_pow2 by (auto simp: power_of_two_def)

lemma power_of_two_nonzero: "\<not> power_of_two 0"
proof
  assume "power_of_two 0"
  then obtain k where "unat (0::size_t) = 2 ^ k" by (rule power_of_twoE)
  then show False by simp
qed

lemma pow2_and: "k < 64 \<Longrightarrow> ((2::64 word) ^ k) AND (2 ^ k - 1) = 0"
  by (simp add: and_mask_dvd_nat [symmetric] unat_pow2 flip: mask_eq_exp_minus_1)

lemma unat_and_pow2: "k < 64 \<Longrightarrow> unat ((a::64 word) AND (2 ^ k - 1)) = unat a mod 2 ^ k"
proof -
  have "a AND (2 ^ k - 1) = take_bit k a"
    by (simp only: take_bit_eq_mask mask_eq_exp_minus_1)
  then have "unat (a AND (2 ^ k - 1)) = unat (take_bit k a)"
    by (rule arg_cong)
  also have "\<dots> = take_bit k (unat a)"
    by (rule unsigned_take_bit_eq)
  also have "\<dots> = unat a mod 2 ^ k"
    by (rule take_bit_eq_mod)
  finally show ?thesis .
qed

lemma and_pow2_le: "k < 64 \<Longrightarrow> ((a::64 word) AND (2 ^ k - 1)) \<le> 2 ^ k"
  by (simp add: word_le_nat_alt unat_and_pow2 unat_pow2 less_imp_le)

lemma unat_adjustment:
  assumes "k < 64"
  shows "unat ((2::64 word) ^ k - (a AND (2 ^ k - 1))) = 2 ^ k - unat a mod 2 ^ k"
  using assms by (simp add: unat_sub and_pow2_le unat_and_pow2 unat_pow2)

lemma mod_pow2_64:
  assumes "k < 64"
  shows "(x::nat) mod 2 ^ LENGTH(64) mod 2 ^ k = x mod 2 ^ k"
proof -
  have "(2::nat) ^ k dvd 2 ^ LENGTH(64)"
    using assms by (intro le_imp_power_dvd) simp
  then show ?thesis by (rule mod_mod_cancel)
qed

lemma unat_add_mod_pow2:
  assumes "k < 64"
  shows "unat ((x::64 word) + y) mod 2 ^ k = (unat x + unat y) mod 2 ^ k"
  by (simp only: unat_word_ariths mod_pow2_64 [OF assms])

lemma unat_mult_pow2_mod:
  assumes "k < 64"
  shows "unat ((2::64 word) ^ k * t) mod 2 ^ k = 0"
proof -
  have "unat ((2::64 word) ^ k * t) mod 2 ^ k = (unat ((2::64 word) ^ k) * unat t) mod 2 ^ k"
    by (simp only: unat_word_ariths mod_pow2_64 [OF assms])
  then show ?thesis using assms by (simp add: unat_pow2)
qed

lemma unat_add_mult_pow2_mod:
  assumes "k < 64"
  shows "unat ((x::64 word) + 2 ^ k * t) mod 2 ^ k = unat x mod 2 ^ k"
proof -
  have "unat (x + 2 ^ k * t) mod 2 ^ k = (unat x + unat ((2::64 word) ^ k * t)) mod 2 ^ k"
    by (rule unat_add_mod_pow2 [OF assms])
  also have "\<dots> = (unat x mod 2 ^ k + unat ((2::64 word) ^ k * t) mod 2 ^ k) mod 2 ^ k"
    by (simp only: mod_add_eq)
  also have "\<dots> = unat x mod 2 ^ k"
    by (simp add: unat_mult_pow2_mod [OF assms])
  finally show ?thesis .
qed


subsection \<open>The distance to the next multiple, on natural numbers\<close>

lemma adj_nat_bound:
  fixes n A :: nat
  assumes "0 < A"
  shows "(A - n mod A) mod A < A"
  using assms by simp

lemma adj_nat_aligned:
  fixes n A :: nat
  assumes "0 < A"
  shows "(n + (A - n mod A) mod A) mod A = 0"
proof -
  have "(n + (A - n mod A) mod A) mod A = (n mod A + (A - n mod A)) mod A"
    by (simp add: mod_simps)
  also have "n mod A + (A - n mod A) = A"
    using assms by (simp add: less_imp_le)
  finally show ?thesis by simp
qed

lemma adj_nat_least:
  fixes n A :: nat
  assumes "0 < A" "(n + m) mod A = 0"
  shows "(A - n mod A) mod A \<le> m"
proof (cases "n mod A = 0")
  case True
  then show ?thesis by simp
next
  case False
  have "(n mod A + m) mod A = 0" using assms(2) by (simp add: mod_simps)
  then have "A dvd n mod A + m" by (simp add: dvd_eq_mod_eq_0)
  moreover have "0 < n mod A + m" using False by simp
  ultimately have "A \<le> n mod A + m" by (rule dvd_imp_le)
  then have "A - n mod A \<le> m" by simp
  moreover have "(A - n mod A) mod A \<le> A - n mod A" by simp
  ultimately show ?thesis by (rule order_trans [rotated])
qed


subsection \<open>The plain adjustment\<close>

lemma CalculateAlignForwardAdjustment_pow2:
  assumes "k < 64"
  shows "\<exists>adj. CalculateAlignForwardAdjustment a (2 ^ k) = Inr adj \<and>
           unat adj = (2 ^ k - unat a mod 2 ^ k) mod 2 ^ k"
proof -
  let ?d = "(2::64 word) ^ k - (a AND (2 ^ k - 1))"
  have d: "unat ?d = 2 ^ k - unat a mod 2 ^ k" by (rule unat_adjustment [OF assms])
  have eq: "?d = 2 ^ k \<longleftrightarrow> unat a mod 2 ^ k = 0"
  proof -
    have "?d = 2 ^ k \<longleftrightarrow> unat ?d = unat ((2::64 word) ^ k)"
      by (simp only: word_unat_eq_iff)
    also have "\<dots> \<longleftrightarrow> unat a mod 2 ^ k = 0"
    proof -
      have "\<And>r A::nat. r < A \<Longrightarrow> (A - r = A) = (r = 0)" by arith
      moreover have "unat a mod 2 ^ k < 2 ^ k" by simp
      ultimately show ?thesis using assms by (simp add: d unat_pow2)
    qed
    finally show ?thesis .
  qed
  show ?thesis
  proof (cases "unat a mod 2 ^ k = 0")
    case True
    with eq show ?thesis
      using assms by (simp add: CalculateAlignForwardAdjustment_def neko_assert_def pow2_and)
  next
    case False
    have "unat a mod 2 ^ k < 2 ^ k" by simp
    with False have "(2 ^ k - unat a mod 2 ^ k) mod 2 ^ k = 2 ^ k - unat a mod 2 ^ k"
      by simp
    with False eq d show ?thesis
      using assms by (simp add: CalculateAlignForwardAdjustment_def neko_assert_def pow2_and Let_def)
  qed
qed


subsection \<open>The header-aware adjustment\<close>

text \<open>The header-aware adjustment always differs from the plain one by a multiple of the alignment.\<close>
lemma WithHeader_shape:
  assumes "k < 64"
    and "CalculateAlignForwardAdjustment a (2 ^ k) = Inr adj"
  shows "\<exists>t. CalculateAlignForwardAdjustmentWithHeader a (2 ^ k) h = Inr (adj + 2 ^ k * t)"
proof -
  have nz: "(2::64 word) ^ k \<noteq> 0"
    using assms(1) unat_pow2 [of k] by (metis power_not_zero unat_0 zero_neq_numeral)
  let ?n = "h - adj"
  show ?thesis
  proof (cases "adj < h")
    case False
    then have "CalculateAlignForwardAdjustmentWithHeader a (2 ^ k) h = Inr (adj + 2 ^ k * 0)"
      by (simp add: CalculateAlignForwardAdjustmentWithHeader_def assms(2))
    then show ?thesis ..
  next
    case True
    show ?thesis
    proof (cases "?n mod 2 ^ k > 0")
      case True
      with \<open>adj < h\<close> nz
      have "CalculateAlignForwardAdjustmentWithHeader a (2 ^ k) h
              = Inr (adj + 2 ^ k * (?n div 2 ^ k + 1))"
        by (simp add: CalculateAlignForwardAdjustmentWithHeader_def assms(2) Let_def ring_distribs)
      then show ?thesis ..
    next
      case False
      with \<open>adj < h\<close> nz
      have "CalculateAlignForwardAdjustmentWithHeader a (2 ^ k) h
              = Inr (adj + 2 ^ k * (?n div 2 ^ k))"
        by (simp add: CalculateAlignForwardAdjustmentWithHeader_def assms(2) Let_def)
      then show ?thesis ..
    qed
  qed
qed

text \<open>Without wrap-around the header-aware adjustment covers the header.\<close>
lemma WithHeader_covers:
  assumes k: "k < 64"
    and adj: "CalculateAlignForwardAdjustment a (2 ^ k) = Inr adj"
    and fit: "unat h + 2 ^ k \<le> 2 ^ LENGTH(64)"
  shows "\<exists>off. CalculateAlignForwardAdjustmentWithHeader a (2 ^ k) h = Inr off \<and>
           h \<le> off \<and> (adj < h \<longrightarrow> unat off < unat h + 2 ^ k) \<and> (h \<le> adj \<longrightarrow> off = adj)"
proof (cases "adj < h")
  case False
  then have res: "CalculateAlignForwardAdjustmentWithHeader a (2 ^ k) h = Inr adj"
    by (simp add: CalculateAlignForwardAdjustmentWithHeader_def adj)
  from False have "h \<le> adj" by simp
  then show ?thesis using res False by simp
next
  case True
  let ?A = "(2::nat) ^ k"
  let ?al = "(2::64 word) ^ k"
  let ?n = "h - adj"
  let ?N = "unat h - unat adj"
  have A: "unat ?al = ?A" by (rule unat_pow2 [OF k])
  have Apos: "0 < ?A" by simp
  have nz: "?al \<noteq> 0" using A Apos by (metis unat_0 less_irrefl)
  have lt: "unat adj < unat h" using True by (simp add: word_less_nat_alt)
  have n: "unat ?n = ?N" using True by (simp add: unat_sub less_imp_le)
  have q: "unat (?n div ?al) = ?N div ?A" by (simp add: unat_div n A)
  have r: "unat (?n mod ?al) = ?N mod ?A" by (simp add: unat_mod n A)
  have hb: "unat h < 2 ^ LENGTH(64)" by (rule unsigned_less)
  have mq: "?A * (?N div ?A) \<le> ?N" by simp
  have m: "unat (?al * (?n div ?al)) = ?A * (?N div ?A)"
  proof -
    have "unat ?al * unat (?n div ?al) < 2 ^ LENGTH(64)"
      using mq hb by (simp only: A q; arith)
    then show ?thesis by (simp only: unat_mult_lem [THEN iffD1] A q)
  qed
  have s1: "unat (adj + ?al * (?n div ?al)) = unat adj + ?A * (?N div ?A)"
  proof -
    have "unat adj + unat (?al * (?n div ?al)) < 2 ^ LENGTH(64)"
      using mq hb lt by (simp only: m; arith)
    then show ?thesis by (simp only: unat_add_lem [THEN iffD1] m)
  qed
  have decomp: "?N = ?A * (?N div ?A) + ?N mod ?A" by simp
  show ?thesis
  proof (cases "?n mod ?al > 0")
    case False
    then have r0: "?N mod ?A = 0" using r by (simp add: word_less_nat_alt)
    have res: "CalculateAlignForwardAdjustmentWithHeader a ?al h = Inr (adj + ?al * (?n div ?al))"
      using True False nz
      by (simp add: CalculateAlignForwardAdjustmentWithHeader_def adj Let_def)
    have "unat (adj + ?al * (?n div ?al)) = unat h"
      using decomp r0 lt by (simp only: s1; arith)
    then have "adj + ?al * (?n div ?al) = h" by (simp only: word_unat_eq_iff)
    with res True show ?thesis by (auto simp: word_less_nat_alt word_le_nat_alt)
  next
    case rp: True
    then have r1: "0 < ?N mod ?A" using r by (simp add: word_less_nat_alt)
    have res: "CalculateAlignForwardAdjustmentWithHeader a ?al h
                 = Inr (adj + ?al * (?n div ?al) + ?al)"
      using True rp nz
      by (simp add: CalculateAlignForwardAdjustmentWithHeader_def adj Let_def)
    have rlt: "?N mod ?A < ?A" by simp
    have s2: "unat (adj + ?al * (?n div ?al) + ?al) = unat adj + ?A * (?N div ?A) + ?A"
    proof -
      have "unat (adj + ?al * (?n div ?al)) + unat ?al < 2 ^ LENGTH(64)"
        using decomp r1 lt fit by (simp only: s1 A; arith)
      then show ?thesis by (simp only: unat_add_lem [THEN iffD1] s1 A)
    qed
    have ge: "unat h \<le> unat adj + ?A * (?N div ?A) + ?A"
      using decomp rlt lt by arith
    have up: "unat adj + ?A * (?N div ?A) + ?A < unat h + ?A"
      using decomp r1 lt by arith
    from res ge up True show ?thesis
      by (auto simp: word_le_nat_alt word_less_nat_alt s2)
  qed
qed


subsection \<open>The alignment law\<close>

text \<open>
  Claim C1, as amended. For every address and every power-of-two alignment,
  \<^verbatim>\<open>CalculateAlignForwardAdjustment\<close> succeeds and returns the smallest offset such that
  address plus offset (as a number) is a multiple of the alignment; the offset is 0 when the
  address is already aligned. \<^verbatim>\<open>AlignForward\<close> returns the address plus that offset in 64-bit
  arithmetic, which is always a multiple of the alignment; whenever the sum does not exceed the
  64-bit address range it is at least the address and is the smallest such multiple.
\<close>
theorem AlignForward_least_multiple:
  assumes "power_of_two alignment"
  shows "\<exists>adjustment.
           CalculateAlignForwardAdjustment address alignment = Inr adjustment \<and>
           AlignForward address alignment = Inr (address + adjustment) \<and>
           unat adjustment < unat alignment \<and>
           (unat address + unat adjustment) mod unat alignment = 0 \<and>
           (\<forall>m. (unat address + m) mod unat alignment = 0 \<longrightarrow> unat adjustment \<le> m) \<and>
           (unat address mod unat alignment = 0 \<longrightarrow> adjustment = 0) \<and>
           unat (address + adjustment) mod unat alignment = 0 \<and>
           (unat address + unat adjustment < 2 ^ 64 \<longrightarrow>
              address \<le> address + adjustment \<and>
              (\<forall>b. address \<le> b \<and> unat b mod unat alignment = 0 \<longrightarrow> address + adjustment \<le> b))"
proof -
  from assms obtain k where k: "k < 64" and al: "alignment = 2 ^ k" and ual: "unat alignment = 2 ^ k"
    by (rule power_of_twoE)
  let ?A = "(2::nat) ^ k"
  let ?n = "unat address"
  obtain adj where res: "CalculateAlignForwardAdjustment address alignment = Inr adj"
    and u: "unat adj = (?A - ?n mod ?A) mod ?A"
    using CalculateAlignForwardAdjustment_pow2 [OF k, of address] al by blast
  have Apos: "0 < ?A" by simp
  have bound: "unat adj < ?A" unfolding u by (rule adj_nat_bound [OF Apos])
  have aligned: "(?n + unat adj) mod ?A = 0" unfolding u by (rule adj_nat_aligned [OF Apos])
  have least: "unat adj \<le> m" if "(?n + m) mod ?A = 0" for m
    unfolding u using Apos that by (rule adj_nat_least)
  have zero: "adj = 0" if "?n mod ?A = 0"
  proof -
    from that have "unat adj = 0" by (simp add: u)
    then show ?thesis by (simp add: unat_eq_0)
  qed
  have wrapped: "unat (address + adj) mod ?A = 0"
    using aligned by (simp only: unat_add_mod_pow2 [OF k])
  have nowrap: "address \<le> address + adj \<and>
      (\<forall>b. address \<le> b \<and> unat b mod ?A = 0 \<longrightarrow> address + adj \<le> b)"
    if fits: "?n + unat adj < 2 ^ 64"
  proof -
    from fits have sum: "unat (address + adj) = ?n + unat adj"
      by (simp add: unat_add_lem [THEN iffD1])
    have "address + adj \<le> b" if b: "address \<le> b" "unat b mod ?A = 0" for b
    proof -
      from b(1) have "?n \<le> unat b" by (simp add: word_le_nat_alt)
      then have "unat b = ?n + (unat b - ?n)" by simp
      with b(2) have "(?n + (unat b - ?n)) mod ?A = 0" by simp
      then have "unat adj \<le> unat b - ?n" by (rule least)
      with \<open>?n \<le> unat b\<close> show ?thesis by (simp add: word_le_nat_alt sum)
    qed
    then show ?thesis by (simp add: word_le_nat_alt sum)
  qed
  show ?thesis
    using res bound aligned least zero wrapped nowrap
    by (intro exI [of _ adj]) (simp add: AlignForward_def ual)
qed

lemma power_of_two_2: "power_of_two 2"
  unfolding power_of_two_def by (rule bexI [of _ 1]) simp_all

lemma power_of_two_8: "power_of_two 8"
  unfolding power_of_two_def by (rule bexI [of _ 3]) simp_all

text \<open>An instance: the address 13 with alignment 8.\<close>

theorem AlignForward_least_multiple_witness:
  "power_of_two 8 \<and>
   (\<exists>adjustment. CalculateAlignForwardAdjustment 13 8 = Inr adjustment \<and>
      AlignForward 13 8 = Inr (13 + adjustment) \<and>
      unat adjustment < 8 \<and> (13 + unat adjustment) mod 8 = 0)"
proof -
  have p: "power_of_two 8" by (rule power_of_two_8)
  from AlignForward_least_multiple [OF p, of 13] obtain adjustment where
    "CalculateAlignForwardAdjustment 13 8 = Inr adjustment"
    "AlignForward 13 8 = Inr (13 + adjustment)"
    "unat adjustment < unat (8::size_t)"
    "(unat (13::addr) + unat adjustment) mod unat (8::size_t) = 0"
    by (elim exE conjE)
  then show ?thesis using p by auto
qed

text \<open>
  Claim C1 as stated fails at the top of the address space: the smallest multiple of 2 that is
  at least \<^verbatim>\<open>0xFFFFFFFFFFFFFFFF\<close> is \<open>2 ^ 64\<close>, the sum wraps, and \<^verbatim>\<open>AlignForward\<close> returns
  the address 0, which lies below the address given.
\<close>

theorem AlignForward_wraps_counterexample:
  "power_of_two 2 \<and> AlignForward 0xFFFFFFFFFFFFFFFF 2 = Inr 0 \<and>
   (0::addr) < 0xFFFFFFFFFFFFFFFF"
  by (simp add: power_of_two_2 AlignForward_def CalculateAlignForwardAdjustment_def neko_assert_def)


subsection \<open>The header reservation law\<close>

text \<open>
  Claim C2, as amended. For every address, every power-of-two alignment and every header size,
  \<^verbatim>\<open>CalculateAlignForwardAdjustmentWithHeader\<close> succeeds and the payload address returned by
  \<^verbatim>\<open>AlignForwardWithHeader\<close> is a multiple of the alignment. Whenever header size plus
  alignment does not exceed \<open>2 ^ 64\<close>, so that rounding up cannot wrap, the offset is at least
  the header size. Whenever, in addition, address plus offset stays below \<open>2 ^ 64\<close>, the payload
  address is the address plus the offset as natural numbers, so it does not lie below the address
  and at least header size bytes lie between the address and the payload address.
\<close>
theorem AlignForwardWithHeader_reserves_header:
  assumes "power_of_two alignment"
  shows "\<exists>adjustment.
           CalculateAlignForwardAdjustmentWithHeader address alignment headerSize = Inr adjustment \<and>
           AlignForwardWithHeader address alignment headerSize = Inr (address + adjustment) \<and>
           unat (address + adjustment) mod unat alignment = 0 \<and>
           (unat headerSize + unat alignment \<le> 2 ^ 64 \<longrightarrow>
              headerSize \<le> adjustment \<and>
              (unat address + unat adjustment < 2 ^ 64 \<longrightarrow>
                 unat (address + adjustment) = unat address + unat adjustment \<and>
                 unat address + unat headerSize \<le> unat (address + adjustment)))"
proof -
  from assms obtain k where k: "k < 64" and al: "alignment = 2 ^ k" and ual: "unat alignment = 2 ^ k"
    by (rule power_of_twoE)
  obtain adj where plain: "CalculateAlignForwardAdjustment address (2 ^ k) = Inr adj"
    and u: "unat adj = (2 ^ k - unat address mod 2 ^ k) mod 2 ^ k"
    using CalculateAlignForwardAdjustment_pow2 [OF k, of address] by blast
  have "(unat address + unat adj) mod 2 ^ k = 0"
    unfolding u by (rule adj_nat_aligned) simp
  then have plain_aligned: "unat (address + adj) mod 2 ^ k = 0"
    by (simp only: unat_add_mod_pow2 [OF k])
  obtain t where res:
    "CalculateAlignForwardAdjustmentWithHeader address (2 ^ k) headerSize = Inr (adj + 2 ^ k * t)"
    using WithHeader_shape [OF k plain] by blast
  define off where "off = adj + 2 ^ k * t"
  have "unat (address + (adj + 2 ^ k * t)) mod 2 ^ k = unat ((address + adj) + 2 ^ k * t) mod 2 ^ k"
    by (simp add: add.assoc)
  also have "\<dots> = 0"
    by (simp only: unat_add_mult_pow2_mod [OF k] plain_aligned)
  finally have aligned: "unat (address + off) mod 2 ^ k = 0"
    unfolding off_def .
  have covers: "headerSize \<le> off" if "unat headerSize + 2 ^ k \<le> 2 ^ 64"
  proof -
    from that have "unat headerSize + 2 ^ k \<le> 2 ^ LENGTH(64)" by simp
    from WithHeader_covers [OF k plain this] res show ?thesis
      unfolding off_def by auto
  qed
  have linear: "unat (address + off) = unat address + unat off"
    if "unat address + unat off < 2 ^ 64"
  proof -
    from that have "unat address + unat off < 2 ^ LENGTH(64)" by simp
    then show ?thesis by (simp only: unat_add_lem)
  qed
  have between: "unat address + unat headerSize \<le> unat (address + off)"
    if "unat headerSize + 2 ^ k \<le> 2 ^ 64" and "unat address + unat off < 2 ^ 64"
  proof -
    from covers [OF that(1)] have "unat headerSize \<le> unat off"
      by (simp only: word_le_nat_alt)
    then show ?thesis
      by (simp only: linear [OF that(2)] add_le_cancel_left)
  qed
  have r1: "CalculateAlignForwardAdjustmentWithHeader address alignment headerSize = Inr off"
    using res unfolding off_def al .
  have r2: "AlignForwardWithHeader address alignment headerSize = Inr (address + off)"
    unfolding AlignForwardWithHeader_def r1 by simp
  have r3: "unat (address + off) mod unat alignment = 0"
    using aligned unfolding ual .
  have r4: "unat headerSize + unat alignment \<le> 2 ^ 64 \<longrightarrow>
              headerSize \<le> off \<and>
              (unat address + unat off < 2 ^ 64 \<longrightarrow>
                 unat (address + off) = unat address + unat off \<and>
                 unat address + unat headerSize \<le> unat (address + off))"
    unfolding ual using covers linear between by blast
  show ?thesis
    by (rule exI [of _ off]) (intro conjI r1 r2 r3 r4)
qed

text \<open>An instance: a 9-byte header in front of an 8-aligned payload, from address 5. The offset
  is 11 and the payload address 16.\<close>

theorem AlignForwardWithHeader_reserves_header_witness:
  "power_of_two 8 \<and> unat (9::size_t) + unat (8::size_t) \<le> 2 ^ 64 \<and>
   (\<exists>adjustment. CalculateAlignForwardAdjustmentWithHeader 5 8 9 = Inr adjustment \<and>
      AlignForwardWithHeader 5 8 9 = Inr (5 + adjustment) \<and> 9 \<le> adjustment \<and>
      unat (5::addr) + unat adjustment < 2 ^ 64 \<and>
      unat (5::addr) + unat (9::size_t) \<le> unat (5 + adjustment))"
proof -
  have p: "power_of_two 8" by (rule power_of_two_8)
  have f: "unat (9::size_t) + unat (8::size_t) \<le> 2 ^ 64" by simp
  have c: "CalculateAlignForwardAdjustmentWithHeader 5 8 9 = Inr 11"
    by (simp add: CalculateAlignForwardAdjustmentWithHeader_def CalculateAlignForwardAdjustment_def
        neko_assert_def)
  have g: "unat (5::addr) + unat (11::size_t) < 2 ^ 64" by simp
  from AlignForwardWithHeader_reserves_header [OF p, of 5 9] obtain adjustment where
    a: "CalculateAlignForwardAdjustmentWithHeader 5 8 9 = Inr adjustment"
    and b: "AlignForwardWithHeader 5 8 9 = Inr (5 + adjustment)"
    and i: "unat (9::size_t) + unat (8::size_t) \<le> 2 ^ 64 \<longrightarrow>
              9 \<le> adjustment \<and>
              (unat (5::addr) + unat adjustment < 2 ^ 64 \<longrightarrow>
                 unat (5 + adjustment) = unat (5::addr) + unat adjustment \<and>
                 unat (5::addr) + unat (9::size_t) \<le> unat (5 + adjustment))"
    by (elim exE conjE)
  from a c have e: "adjustment = 11" by simp
  from mp [OF i f] have j: "9 \<le> adjustment"
    and i': "unat (5::addr) + unat adjustment < 2 ^ 64 \<longrightarrow>
                 unat (5 + adjustment) = unat (5::addr) + unat adjustment \<and>
                 unat (5::addr) + unat (9::size_t) \<le> unat (5 + adjustment)"
    by (rule conjunct1, rule conjunct2)
  from g have g': "unat (5::addr) + unat adjustment < 2 ^ 64" unfolding e .
  from mp [OF i' g'] have l: "unat (5::addr) + unat (9::size_t) \<le> unat (5 + adjustment)"
    by (rule conjunct2)
  show ?thesis
    by (intro conjI p f exI [of _ adjustment] a b j g' l)
qed

text \<open>
  Claim C2 as stated fails in two ways. For a header size near \<open>2 ^ 64\<close>, rounding
  \<^verbatim>\<open>0xFFFFFFFFFFFFFFFF\<close> up to a multiple of 2 wraps, and the offset returned is 0. For an
  address near \<open>2 ^ 64\<close>, the offset 16 covers the 8-byte header, but the sum of address and
  offset wraps and the payload address returned is 0, below the address.
\<close>

theorem WithHeader_wraps_counterexample:
  "power_of_two 2 \<and>
   CalculateAlignForwardAdjustmentWithHeader 0 2 0xFFFFFFFFFFFFFFFF = Inr 0 \<and>
   AlignForwardWithHeader 0 2 0xFFFFFFFFFFFFFFFF = Inr 0 \<and>
   (0::size_t) < 0xFFFFFFFFFFFFFFFF \<and>
   power_of_two 16 \<and>
   CalculateAlignForwardAdjustmentWithHeader 0xFFFFFFFFFFFFFFF0 16 8 = Inr 16 \<and>
   AlignForwardWithHeader 0xFFFFFFFFFFFFFFF0 16 8 = Inr 0 \<and>
   (0::addr) < 0xFFFFFFFFFFFFFFF0"
proof -
  have p16: "power_of_two 16"
    unfolding power_of_two_def by (rule bexI [of _ 4]) simp_all
  have a: "CalculateAlignForwardAdjustmentWithHeader 0 2 0xFFFFFFFFFFFFFFFF = Inr 0"
    by (simp add: CalculateAlignForwardAdjustmentWithHeader_def CalculateAlignForwardAdjustment_def
        neko_assert_def)
  have b: "CalculateAlignForwardAdjustmentWithHeader 0xFFFFFFFFFFFFFFF0 16 8 = Inr 16"
    by (simp add: CalculateAlignForwardAdjustmentWithHeader_def CalculateAlignForwardAdjustment_def
        neko_assert_def)
  show ?thesis
    by (simp add: power_of_two_2 p16 AlignForwardWithHeader_def a b)
qed


subsection \<open>Alignments that are not powers of two\<close>

text \<open>A nonzero word that shares no bit with its predecessor is a power of two, so the
  check of \<^verbatim>\<open>CalculateAlignForwardAdjustment\<close> rejects every nonzero alignment that is not one.\<close>

lemma nat_and_pred_pow2:
  fixes n :: nat
  assumes "0 < n" and "n AND (n - 1) = 0"
  shows "\<exists>k. n = 2 ^ k"
  using assms
proof (induction n rule: less_induct)
  case (less n)
  show ?case
  proof (cases "even n")
    case False
    then obtain m where n: "n = 2 * m + 1" by (elim oddE)
    have "n AND (n - 1) = 2 * m"
      unfolding n by (subst and_rec) simp
    with less.prems(2) have "m = 0" by simp
    with n have "n = 2 ^ 0" by simp
    then show ?thesis ..
  next
    case True
    then obtain m where n: "n = 2 * m" by (elim evenE)
    with less.prems(1) have mpos: "0 < m" by simp
    then have pred: "n - 1 = 2 * (m - 1) + 1" unfolding n by simp
    have "n AND (n - 1) = 2 * (m AND (m - 1))"
      unfolding pred unfolding n by (subst and_rec) simp
    with less.prems(2) have "m AND (m - 1) = 0" by simp
    moreover have "m < n" using mpos n by simp
    ultimately obtain k where "m = 2 ^ k" using less.IH mpos by blast
    with n have "n = 2 ^ Suc k" by simp
    then show ?thesis ..
  qed
qed

lemma and_pred_zero_power_of_two:
  assumes "a \<noteq> 0" and "(a::size_t) AND (a - 1) = 0"
  shows "power_of_two a"
proof -
  have pos: "0 < unat a" using assms(1) by (simp add: unat_gt_0)
  have "unat (a AND (a - 1)) = unat a AND unat (a - 1)" by (rule unsigned_and_eq)
  also have "unat (a - 1) = unat a - 1" using assms(1) by (rule unat_minus_one)
  finally have "unat a AND (unat a - 1) = 0" using assms(2) by simp
  with pos obtain k where k: "unat a = 2 ^ k" using nat_and_pred_pow2 by blast
  have "unat a < 2 ^ LENGTH(64)" by (rule unsigned_less)
  with k have "(2::nat) ^ k < 2 ^ 64" by simp
  then have k64: "k < 64" by (simp only: power_strict_increasing_iff one_less_numeral_iff semiring_norm)
  have "a = of_nat (unat a)" by simp
  also have "\<dots> = 2 ^ k" unfolding k by simp
  finally show ?thesis using k64 unfolding power_of_two_def by auto
qed

lemma CalculateAlignForwardAdjustment_InvalidAlignment:
  assumes "alignment \<noteq> 0" and "\<not> power_of_two alignment"
  shows "CalculateAlignForwardAdjustment address alignment = Inl InvalidAlignment"
proof -
  from assms and_pred_zero_power_of_two have "alignment AND (alignment - 1) \<noteq> 0" by blast
  then show ?thesis by (simp add: CalculateAlignForwardAdjustment_def neko_assert_def)
qed

text \<open>
  Claim C3 at the alignment 0. Zero is not a power of two, yet the check
  \<^verbatim>\<open>(alignment & (alignment - 1)) == 0\<close> lets it pass, and an adjustment is computed: for the
  address 5 it is \<open>0 - 5\<close> in 64-bit arithmetic.
\<close>
theorem CalculateAlignForwardAdjustment_accepts_zero_alignment:
  "\<not> power_of_two 0 \<and> CalculateAlignForwardAdjustment 5 0 = Inr 0xFFFFFFFFFFFFFFFB"
  by (simp add: power_of_two_nonzero CalculateAlignForwardAdjustment_def neko_assert_def)


section \<open>The pool allocator: construction\<close>

subsection \<open>Slot addresses\<close>

lemma slot_0 [simp]: "slot first sz 0 = first"
  by (simp add: slot_def)

lemma slot_Suc: "slot first sz (Suc i) = slot first sz i + sz"
  by (simp add: slot_def algebra_simps)

lemma length_slots [simp]: "length (slots first sz n) = n"
  by (simp add: slots_def)

lemma set_slots: "set (slots first sz n) = slot first sz ` {0..<n}"
  by (simp add: slots_def)

text \<open>As long as the \<open>n\<close> slots end inside the address space, the address of a slot is the
  number one expects.\<close>

lemma unat_slot:
  assumes fit: "unat first + n * unat sz \<le> 2 ^ LENGTH(64)" and i: "i < n" and sz: "0 < unat sz"
  shows "unat (slot first sz i) = unat first + i * unat sz"
proof -
  from i have "Suc i \<le> n" by simp
  then have "Suc i * unat sz \<le> n * unat sz" by (rule mult_le_mono1)
  with fit sz have lt: "unat first + i * unat sz < 2 ^ LENGTH(64)" by simp
  then have "i * unat sz < 2 ^ LENGTH(64)" by simp
  moreover have "unat (of_nat i * sz :: size_t) = (i * unat sz) mod 2 ^ LENGTH(64)"
    by (simp add: unat_word_ariths unat_of_nat mod_simps)
  ultimately have prod: "unat (of_nat i * sz :: size_t) = i * unat sz" by simp
  with lt have "unat first + unat (of_nat i * sz :: size_t) < 2 ^ LENGTH(64)" by simp
  then have "unat (first + of_nat i * sz) = unat first + unat (of_nat i * sz :: size_t)"
    by (simp only: unat_add_lem [THEN iffD1])
  with prod show ?thesis by (simp add: slot_def)
qed

lemma slot_inj:
  assumes fit: "unat first + n * unat sz \<le> 2 ^ LENGTH(64)" and sz: "0 < unat sz"
    and i: "i < n" and j: "j < n" and eq: "slot first sz i = slot first sz j"
  shows "i = j"
proof -
  have "unat first + i * unat sz = unat (slot first sz i)"
    by (rule unat_slot [OF fit i sz, symmetric])
  also have "\<dots> = unat (slot first sz j)" using eq by simp
  also have "\<dots> = unat first + j * unat sz"
    by (rule unat_slot [OF fit j sz])
  finally show ?thesis using sz by simp
qed

lemma distinct_slots:
  assumes fit: "unat first + n * unat sz \<le> 2 ^ LENGTH(64)" and sz: "0 < unat sz"
  shows "distinct (slots first sz n)"
  unfolding slots_def distinct_map
  using slot_inj [OF fit sz] by (auto simp: inj_on_def)

lemma slot_not_null:
  assumes fit: "unat first + n * unat sz \<le> 2 ^ LENGTH(64)" and sz: "0 < unat sz"
    and first: "first \<noteq> nullptr" and i: "i < n"
  shows "slot first sz i \<noteq> nullptr"
proof
  assume "slot first sz i = nullptr"
  then have "unat (slot first sz i) = 0" by simp
  then have "unat first = 0" by (simp add: unat_slot [OF fit i sz])
  with first show False by (simp add: unat_eq_0)
qed

lemma null_notin_slots:
  assumes fit: "unat first + n * unat sz \<le> 2 ^ LENGTH(64)" and sz: "0 < unat sz"
    and first: "first \<noteq> nullptr"
  shows "nullptr \<notin> set (slots first sz n)"
  using slot_not_null [OF fit sz first] by (auto simp: set_slots)

text \<open>The slots come in ascending address order.\<close>

lemma slots_ascending:
  assumes fit: "unat first + n * unat sz \<le> 2 ^ LENGTH(64)" and sz: "0 < unat sz"
  shows "sorted_wrt (<) (slots first sz n)"
proof -
  have "slot first sz i < slot first sz j" if "i < j" "j < n" for i j
  proof -
    from that have "i < n" by simp
    from that(1) sz have "i * unat sz < j * unat sz" by simp
    then show ?thesis
      by (simp add: word_less_nat_alt unat_slot [OF fit \<open>i < n\<close> sz] unat_slot [OF fit \<open>j < n\<close> sz])
  qed
  then show ?thesis
    by (simp add: slots_def sorted_wrt_map sorted_wrt_iff_nth_less)
qed

subsection \<open>The loop of the constructor\<close>

lemma unat_Suc_word:
  assumes "unat (i::size_t) < unat (b::size_t)"
  shows "unat (i + 1) = Suc (unat i)"
proof -
  have "unat b < 2 ^ LENGTH(64)" by (rule unsigned_less)
  with assms have "unat i + unat (1::size_t) < 2 ^ LENGTH(64)" by simp
  then show ?thesis by (simp add: unat_add_lem [THEN iffD1])
qed

lemma ex_slot_Suc:
  "(\<exists>k<Suc j. a = slot fb sz k) \<longleftrightarrow> a = fb \<or> (\<exists>k<j. a = slot (fb + sz) sz k)"
proof
  assume "\<exists>k<Suc j. a = slot fb sz k"
  then obtain k where k: "k < Suc j" "a = slot fb sz k" by blast
  show "a = fb \<or> (\<exists>k<j. a = slot (fb + sz) sz k)"
  proof (cases k)
    case 0
    with k show ?thesis by simp
  next
    case (Suc k')
    with k have "k' < j" "a = slot (fb + sz) sz k'" by (simp_all add: slot_def algebra_simps)
    then show ?thesis by blast
  qed
next
  assume "a = fb \<or> (\<exists>k<j. a = slot (fb + sz) sz k)"
  then show "\<exists>k<Suc j. a = slot fb sz k"
  proof
    assume "a = fb"
    then have "0 < Suc j \<and> a = slot fb sz 0" by simp
    then show ?thesis by blast
  next
    assume "\<exists>k<j. a = slot (fb + sz) sz k"
    then obtain k where "k < j" "a = slot (fb + sz) sz k" by blast
    then have "Suc k < Suc j \<and> a = slot fb sz (Suc k)" by (simp add: slot_def algebra_simps)
    then show ?thesis by blast
  qed
qed

text \<open>What the loop leaves behind when it still has \<open>j\<close> rounds to go: it has moved \<open>j\<close>
  slots on, and the block at each slot it passed points to the slot after it.\<close>

lemma PoolAllocator_ctor_loop_closed:
  assumes "unat i + j = unat (numObjects - 1)"
  shows "PoolAllocator_ctor_loop sz numObjects i fb m =
           (slot fb sz j, \<lambda>a. if \<exists>k<j. a = slot fb sz k then a + sz else m a)"
  using assms
proof (induction j arbitrary: i fb m)
  case 0
  then have "\<not> i < numObjects - 1" by (simp add: word_less_nat_alt)
  then show ?case by (simp add: PoolAllocator_ctor_loop.simps [of sz numObjects i])
next
  case (Suc j)
  from Suc.prems have lt: "unat i < unat (numObjects - 1)" by simp
  then have less: "i < numObjects - 1" by (simp add: word_less_nat_alt)
  have "unat (i + 1) = Suc (unat i)" by (rule unat_Suc_word [OF lt])
  with Suc.prems have "unat (i + 1) + j = unat (numObjects - 1)" by simp
  note IH = Suc.IH [OF this, of "fb + sz" "m(fb := fb + sz)"]
  have "PoolAllocator_ctor_loop sz numObjects i fb m =
          PoolAllocator_ctor_loop sz numObjects (i + 1) (fb + sz) (m(fb := fb + sz))"
    using less by (simp add: PoolAllocator_ctor_loop.simps [of sz numObjects i])
  also have "\<dots> = (slot (fb + sz) sz j,
            \<lambda>a. if \<exists>k<j. a = slot (fb + sz) sz k then a + sz else (m(fb := fb + sz)) a)"
    by (rule IH)
  also have "\<dots> = (slot fb sz (Suc j),
            \<lambda>a. if \<exists>k<Suc j. a = slot fb sz k then a + sz else m a)"
  proof -
    have "slot (fb + sz) sz j = slot fb sz (Suc j)" by (simp add: slot_def algebra_simps)
    moreover have "(\<lambda>a. if \<exists>k<j. a = slot (fb + sz) sz k then a + sz else (m(fb := fb + sz)) a)
        = (\<lambda>a. if \<exists>k<Suc j. a = slot fb sz k then a + sz else m a)"
    proof
      fix a
      show "(if \<exists>k<j. a = slot (fb + sz) sz k then a + sz else (m(fb := fb + sz)) a)
        = (if \<exists>k<Suc j. a = slot fb sz k then a + sz else m a)"
        unfolding ex_slot_Suc by auto
    qed
    ultimately show ?thesis by (simp only:)
  qed
  finally show ?case .
qed

text \<open>The constructor in one equation.\<close>

lemma PoolAllocator_ctor_closed:
  assumes big: "\<not> sizeofT T < sizeof_ptr"
    and adj: "CalculateAlignForwardAdjustment mem (alignofT T) = Inr adj"
  shows "PoolAllocator_ctor T size' mem m =
     Inr (\<lparr>start_m = mem, size_m = size', usedMemory_m = 0, numAllocations_m = 0,
           freeBlocks_m = mem + adj\<rparr>,
          (\<lambda>a. if \<exists>k < unat ((size' - adj) div sizeofT T - 1). a = slot (mem + adj) (sizeofT T) k
                then a + sizeofT T else m a)
          (slot (mem + adj) (sizeofT T) (unat ((size' - adj) div sizeofT T - 1)) := nullptr))"
proof -
  have "unat (0::size_t) + unat ((size' - adj) div sizeofT T - 1)
          = unat ((size' - adj) div sizeofT T - 1)" by simp
  note loop = PoolAllocator_ctor_loop_closed [OF this, of "sizeofT T" "mem + adj" m]
  show ?thesis
    using big
    by (simp add: PoolAllocator_ctor_def adj loop Allocator_ctor_def Let_def
        Allocator.extend_def PoolAllocator.fields_def)
qed


subsection \<open>The geometry of a pool with at least one slot\<close>

lemma pool_geometry:
  assumes big: "\<not> sizeofT T < sizeof_ptr"
    and fits: "unat adj + unat (sizeofT T) \<le> unat size'"
    and arena: "unat mem + unat size' \<le> 2 ^ LENGTH(64)"
  shows "unat sizeof_ptr \<le> unat (sizeofT T)"
    and "0 < unat (sizeofT T)"
    and "unat ((size' - adj) div sizeofT T) = (unat size' - unat adj) div unat (sizeofT T)"
    and "1 \<le> unat ((size' - adj) div sizeofT T)"
    and "unat ((size' - adj) div sizeofT T - 1) = unat ((size' - adj) div sizeofT T) - 1"
    and "unat (mem + adj) = unat mem + unat adj"
    and "unat (mem + adj) + unat ((size' - adj) div sizeofT T) * unat (sizeofT T)
           \<le> unat mem + unat size'"
proof -
  show ptr: "unat sizeof_ptr \<le> unat (sizeofT T)"
    using big by (simp add: word_less_nat_alt)
  then show pos: "0 < unat (sizeofT T)" by (simp add: sizeof_ptr_def)
  have le: "adj \<le> size'" using fits by (simp add: word_le_nat_alt)
  then have sub: "unat (size' - adj) = unat size' - unat adj" by (rule unat_sub)
  then show n: "unat ((size' - adj) div sizeofT T) = (unat size' - unat adj) div unat (sizeofT T)"
    by (simp add: unat_div)
  have "unat (sizeofT T) \<le> unat size' - unat adj" using fits by simp
  then have "unat (sizeofT T) div unat (sizeofT T) \<le> (unat size' - unat adj) div unat (sizeofT T)"
    by (rule div_le_mono)
  with pos show one: "1 \<le> unat ((size' - adj) div sizeofT T)" by (simp add: n)
  then have "(size' - adj) div sizeofT T \<noteq> 0" by (auto simp: unat_eq_0)
  then show "unat ((size' - adj) div sizeofT T - 1) = unat ((size' - adj) div sizeofT T) - 1"
    by (rule unat_minus_one)
  have "unat mem + unat adj < 2 ^ LENGTH(64)" using fits arena pos by simp
  then show sum: "unat (mem + adj) = unat mem + unat adj"
    by (simp only: unat_add_lem [THEN iffD1])
  define q where "q = (unat size' - unat adj) div unat (sizeofT T)"
  have "q * unat (sizeofT T) \<le> unat size' - unat adj"
    unfolding q_def by simp
  with fits have "unat adj + q * unat (sizeofT T) \<le> unat size'" by arith
  then show "unat (mem + adj) + unat ((size' - adj) div sizeofT T) * unat (sizeofT T)
           \<le> unat mem + unat size'"
    by (simp add: n sum q_def)
qed

subsection \<open>The free list that the constructor threads\<close>

lemma free_list_threaded:
  assumes fit: "unat first + Suc j * unat sz \<le> 2 ^ LENGTH(64)" and sz: "0 < unat sz"
    and first: "first \<noteq> nullptr" and i: "i \<le> j"
  shows "free_list ((\<lambda>a. if \<exists>k<j. a = slot first sz k then a + sz else m a)
                      (slot first sz j := nullptr))
           (slot first sz i) (map (slot first sz) [i..<Suc j])"
  using i
proof (induction "j - i" arbitrary: i)
  case 0
  then have "i = j" by simp
  moreover have "slot first sz j \<noteq> nullptr"
    by (rule slot_not_null [OF fit sz first]) simp
  ultimately show ?case by simp
next
  case (Suc d)
  then have lt: "i < j" and d: "d = j - Suc i" and le: "Suc i \<le> j" by simp_all
  let ?m = "(\<lambda>a. if \<exists>k<j. a = slot first sz k then a + sz else m a)(slot first sz j := nullptr)"
  have nn: "slot first sz i \<noteq> nullptr"
    using lt by (intro slot_not_null [OF fit sz first]) simp
  have "slot first sz i \<noteq> slot first sz j"
    using slot_inj [OF fit sz, of i j] lt by auto
  then have "?m (slot first sz i) = slot first sz i + sz"
    using lt by auto
  then have next_slot: "?m (slot first sz i) = slot first sz (Suc i)"
    by (simp add: slot_Suc)
  have "[i..<Suc j] = i # [Suc i..<Suc j]"
    using lt by (simp add: upt_conv_Cons)
  with nn next_slot Suc.hyps(1) [OF d le] show ?case by simp
qed

lemma slot_in_arena:
  assumes ptr: "unat sizeof_ptr \<le> unat sz"
    and lo: "unat mem \<le> unat first"
    and hi: "unat first + n * unat sz \<le> unat mem + unat size'"
    and arena: "unat mem + unat size' \<le> 2 ^ LENGTH(64)"
    and i: "i < n"
  shows "in_arena mem size' (slot first sz i)"
proof -
  have sz: "0 < unat sz" using ptr by (simp add: sizeof_ptr_def)
  have fit: "unat first + n * unat sz \<le> 2 ^ LENGTH(64)" using hi arena by simp
  have u: "unat (slot first sz i) = unat first + i * unat sz"
    by (rule unat_slot [OF fit i sz])
  from i have "Suc i \<le> n" by simp
  then have "Suc i * unat sz \<le> n * unat sz" by (rule mult_le_mono1)
  with hi ptr have "unat first + i * unat sz + unat sizeof_ptr \<le> unat mem + unat size'"
    by simp
  with lo show ?thesis by (simp add: in_arena_def u)
qed

text \<open>The result of a construction over an arena that holds at least one slot: the blocks at
  the slots are chained in ascending order, the block at the last slot ends the chain, and no
  block outside the arena is written.\<close>

lemma PoolAllocator_ctor_pool:
  assumes big: "\<not> sizeofT T < sizeof_ptr"
    and adj: "CalculateAlignForwardAdjustment mem (alignofT T) = Inr adj"
    and fits: "unat adj + unat (sizeofT T) \<le> unat size'"
    and arena: "unat mem + unat size' \<le> 2 ^ LENGTH(64)"
  shows "\<exists>a m'. PoolAllocator_ctor T size' mem m = Inr (a, m') \<and>
           a = \<lparr>start_m = mem, size_m = size', usedMemory_m = 0, numAllocations_m = 0,
                freeBlocks_m = mem + adj\<rparr> \<and>
           (mem \<noteq> nullptr \<longrightarrow>
              free_list m' (mem + adj)
                (slots (mem + adj) (sizeofT T) (unat ((size' - adj) div sizeofT T)))) \<and>
           m' (slot (mem + adj) (sizeofT T) (unat ((size' - adj) div sizeofT T) - 1)) = nullptr \<and>
           in_arena mem size'
             (slot (mem + adj) (sizeofT T) (unat ((size' - adj) div sizeofT T) - 1)) \<and>
           (\<forall>x. \<not> in_arena mem size' x \<longrightarrow> m' x = m x)"
proof -
  let ?sz = "sizeofT T"
  let ?first = "mem + adj"
  let ?N = "unat ((size' - adj) div ?sz)"
  let ?j = "?N - 1"
  let ?m' = "(\<lambda>a. if \<exists>k<?j. a = slot ?first ?sz k then a + ?sz else m a)
               (slot ?first ?sz ?j := nullptr)"
  note g = pool_geometry [OF big fits arena]
  have N: "?N = Suc ?j" using g(4) by simp
  have fit: "unat ?first + Suc ?j * unat ?sz \<le> 2 ^ LENGTH(64)"
    using g(7) arena unfolding N [symmetric] by simp
  have ctor: "PoolAllocator_ctor T size' mem m =
      Inr (\<lparr>start_m = mem, size_m = size', usedMemory_m = 0, numAllocations_m = 0,
            freeBlocks_m = ?first\<rparr>, ?m')"
    by (simp only: PoolAllocator_ctor_closed [OF big adj] g(5))
  have fl: "free_list ?m' ?first (slots ?first ?sz ?N)" if mem: "mem \<noteq> nullptr"
  proof -
    have first: "?first \<noteq> nullptr"
    proof
      assume "?first = nullptr"
      then have "unat ?first = 0" by simp
      with g(6) have "unat mem = 0" by simp
      with mem show False by (simp add: unat_eq_0)
    qed
    have "free_list ?m' (slot ?first ?sz 0) (map (slot ?first ?sz) [0..<Suc ?j])"
      by (rule free_list_threaded [OF fit g(2) first]) simp
    then show ?thesis
      unfolding slots_def N [symmetric] by simp
  qed
  have last: "?m' (slot ?first ?sz ?j) = nullptr" by simp
  have inside: "in_arena mem size' (slot ?first ?sz k)" if "k < ?N" for k
    by (rule slot_in_arena [OF g(1) _ g(7) arena that]) (simp add: g(6))
  have "?j < ?N" using g(4) by simp
  then have last_inside: "in_arena mem size' (slot ?first ?sz ?j)"
    by (rule inside)
  have frame: "?m' x = m x" if out: "\<not> in_arena mem size' x" for x
  proof -
    have "x \<noteq> slot ?first ?sz k" if "k < ?N" for k
      using inside [OF that] out by auto
    then have "x \<noteq> slot ?first ?sz ?j" and "\<not> (\<exists>k<?j. x = slot ?first ?sz k)"
      using N by auto
    then show ?thesis by auto
  qed
  from ctor fl last last_inside frame show ?thesis by blast
qed


subsection \<open>The number of slots that fit\<close>

lemma slots_that_fit_code:
  assumes "unat adj \<le> unat size'"
  shows "slots_that_fit T size' adj = int (unat ((size' - adj) div sizeofT T))"
proof -
  have "adj \<le> size'" using assms by (simp add: word_le_nat_alt)
  then have "unat (size' - adj) = unat size' - unat adj" by (rule unat_sub)
  then have "unat ((size' - adj) div sizeofT T) = (unat size' - unat adj) div unat (sizeofT T)"
    by (simp add: unat_div)
  moreover have "int (unat size') - int (unat adj) = int (unat size' - unat adj)"
    using assms by simp
  ultimately show ?thesis
    by (simp only: slots_that_fit_def zdiv_int)
qed

lemma slots_that_fit_ge_1:
  assumes "0 < unat (sizeofT T)"
  shows "1 \<le> slots_that_fit T size' adj \<longleftrightarrow> unat adj + unat (sizeofT T) \<le> unat size'"
proof -
  have "0 < int (unat (sizeofT T))" using assms by (simp only: of_nat_0_less_iff)
  from pos_imp_zdiv_pos_iff [OF this, of "int (unat size') - int (unat adj)"]
  have "0 < slots_that_fit T size' adj
          \<longleftrightarrow> int (unat (sizeofT T)) \<le> int (unat size') - int (unat adj)"
    unfolding slots_that_fit_def .
  also have "\<dots> \<longleftrightarrow> unat adj + unat (sizeofT T) \<le> unat size'"
    by arith
  finally show ?thesis by arith
qed

subsection \<open>Steps that keep the pool in order\<close>

lemma free_list_upd:
  "p \<notin> set xs \<Longrightarrow> free_list (m(p := v)) q xs = free_list m q xs"
  by (induction xs arbitrary: q) auto

lemma pool_inv_Allocate:
  assumes "pool_inv T S st (x # xs) live"
  shows "\<exists>st'. PoolAllocator_Allocate T (sizeofT T) (alignofT T) st = (Inr x, st') \<and>
           pool_inv T S st' xs (x # live)"
proof -
  obtain a m where st: "st = (a, m)" by (cases st)
  from assms show ?thesis
    unfolding st pool_inv_def
    by (auto simp: neko_assert_def Let_def algebra_simps)
qed

lemma pool_inv_Allocate_empty:
  assumes "pool_inv T S st [] live"
  shows "PoolAllocator_Allocate T (sizeofT T) (alignofT T) st = (Inl OutOfMemory, st)"
proof -
  obtain a m where st: "st = (a, m)" by (cases st)
  from assms show ?thesis
    unfolding st pool_inv_def by (simp add: neko_assert_def)
qed

lemma pool_inv_Deallocate:
  assumes inv: "pool_inv T S st fl live" and p: "p \<in> set live"
  shows "pool_inv T S (PoolAllocator_Deallocate T p st) (p # fl) (remove1 p live)"
proof -
  obtain a m where st: "st = (a, m)" by (cases st)
  from inv [unfolded st pool_inv_def fst_conv snd_conv]
  have fl: "free_list m (freeBlocks_m a) fl"
    and dist: "distinct (fl @ live)" and nn: "nullptr \<notin> set (fl @ live)"
    and S: "S = set (fl @ live)"
    and num: "numAllocations_m a = of_nat (length live)"
    and used: "usedMemory_m a = of_nat (length live) * sizeofT T"
    by blast+
  from dist p have notin: "p \<notin> set fl" by auto
  from nn p have pn: "p \<noteq> nullptr" by auto
  from p have len: "length live = Suc (length (remove1 p live))"
    by (simp add: length_remove1) (cases live; simp)
  have "free_list (m(p := freeBlocks_m a)) p (p # fl)"
    using fl pn notin by (simp add: free_list_upd)
  moreover have "distinct ((p # fl) @ remove1 p live)"
    using dist p by auto
  moreover have "nullptr \<notin> set ((p # fl) @ remove1 p live)"
    using nn pn by (auto dest: notin_set_remove1)
  moreover have "S = set ((p # fl) @ remove1 p live)"
    using S dist p by auto
  moreover have "numAllocations_m a - 1 = of_nat (length (remove1 p live))"
    unfolding num len by simp
  moreover have "usedMemory_m a - sizeofT T = of_nat (length (remove1 p live)) * sizeofT T"
    unfolding used len by (simp add: algebra_simps)
  ultimately show ?thesis
    unfolding st pool_inv_def by (simp add: Let_def)
qed

lemma allocate_n_inv:
  assumes "pool_inv T S st (xs @ ys) live"
  shows "\<exists>st'. allocate_n T (length xs) st = (Inr xs, st') \<and> pool_inv T S st' ys (rev xs @ live)"
  using assms
proof (induction xs arbitrary: st live)
  case Nil
  then show ?case by simp
next
  case (Cons x xs)
  then have "pool_inv T S st (x # (xs @ ys)) live" by simp
  from pool_inv_Allocate [OF this] obtain st1 where
    a: "PoolAllocator_Allocate T (sizeofT T) (alignofT T) st = (Inr x, st1)"
    and i: "pool_inv T S st1 (xs @ ys) (x # live)" by blast
  from Cons.IH [OF i] obtain st2 where
    "allocate_n T (length xs) st1 = (Inr xs, st2)" "pool_inv T S st2 ys (rev xs @ x # live)"
    by blast
  with a show ?case by simp
qed

lemma deallocate_all_inv:
  assumes "pool_inv T S st fl live" and "distinct fs" and "set fs \<subseteq> set live"
  shows "pool_inv T S (deallocate_all T fs st) (rev fs @ fl) (filter (\<lambda>x. x \<notin> set fs) live)"
  using assms
proof (induction fs arbitrary: st fl live)
  case Nil
  then show ?case by (simp add: deallocate_all_def)
next
  case (Cons f fs)
  from Cons.prems have f: "f \<in> set live" and nf: "f \<notin> set fs" and d: "distinct fs"
    by simp_all
  from Cons.prems(1) have dl: "distinct live" by (simp add: pool_inv_def)
  have i: "pool_inv T S (PoolAllocator_Deallocate T f st) (f # fl) (remove1 f live)"
    by (rule pool_inv_Deallocate [OF Cons.prems(1) f])
  have sub: "set fs \<subseteq> set (remove1 f live)"
    using Cons.prems(3) nf dl by auto
  have "filter (\<lambda>x. x \<notin> set fs) (remove1 f live) = filter (\<lambda>x. x \<notin> set (f # fs)) live"
    using dl by (auto simp: distinct_remove1_removeAll removeAll_filter_not_eq intro: filter_cong)
  with Cons.IH [OF i d sub] show ?case
    by (simp add: deallocate_all_def)
qed

lemma run_ops_inv:
  assumes "pool_inv T S st fl live" and "run_ops T ops st live = Some (st', live')"
  shows "\<exists>fl'. pool_inv T S st' fl' live'"
  using assms
proof (induction ops arbitrary: st fl live)
  case Nil
  then show ?case by auto
next
  case (Cons op ops)
  show ?case
  proof (cases op)
    case Allocate
    show ?thesis
    proof (cases fl)
      case Nil
      with Cons.prems(1) have "PoolAllocator_Allocate T (sizeofT T) (alignofT T) st
          = (Inl OutOfMemory, st)" by (simp add: pool_inv_Allocate_empty)
      with Cons.prems(2) Allocate show ?thesis by simp
    next
      case (Cons x xs)
      with Cons.prems(1) obtain st1 where
        a: "PoolAllocator_Allocate T (sizeofT T) (alignofT T) st = (Inr x, st1)"
        and i: "pool_inv T S st1 xs (x # live)"
        using pool_inv_Allocate by blast
      from Cons.prems(2) Allocate a have "run_ops T ops st1 (x # live) = Some (st', live')"
        by simp
      from Cons.IH [OF i this] show ?thesis .
    qed
  next
    case (Deallocate p)
    with Cons.prems(2) have p: "p \<in> set live"
      and r: "run_ops T ops (PoolAllocator_Deallocate T p st) (remove1 p live) = Some (st', live')"
      by (simp_all split: if_splits)
    from Cons.IH [OF pool_inv_Deallocate [OF Cons.prems(1) p] r] show ?thesis .
  qed
qed


section \<open>The pool allocator: exhaustion and recovery\<close>

lemma PoolAllocator_ctor_Inr_big:
  assumes "PoolAllocator_ctor T size' mem m = Inr st"
  shows "\<not> sizeofT T < sizeof_ptr"
  using assms by (auto simp: PoolAllocator_ctor_def)

text \<open>A pool constructed over an arena with at least one slot starts with all its slots free,
  in ascending order, and none handed out.\<close>

lemma PoolAllocator_ctor_inv:
  assumes ctor: "PoolAllocator_ctor T size' mem m = Inr st0"
    and adj: "CalculateAlignForwardAdjustment mem (alignofT T) = Inr adj"
    and fits: "unat adj + unat (sizeofT T) \<le> unat size'"
    and arena: "unat mem + unat size' \<le> 2 ^ LENGTH(64)"
    and mem: "mem \<noteq> nullptr"
  shows "pool_inv T (set (slots (mem + adj) (sizeofT T) (unat ((size' - adj) div sizeofT T))))
           st0 (slots (mem + adj) (sizeofT T) (unat ((size' - adj) div sizeofT T))) []"
proof -
  let ?N = "unat ((size' - adj) div sizeofT T)"
  let ?sl = "slots (mem + adj) (sizeofT T) ?N"
  have big: "\<not> sizeofT T < sizeof_ptr" by (rule PoolAllocator_ctor_Inr_big [OF ctor])
  note g = pool_geometry [OF big fits arena]
  from PoolAllocator_ctor_pool [OF big adj fits arena, of m] ctor mem
  obtain a m' where st0: "st0 = (a, m')"
    and a: "a = \<lparr>start_m = mem, size_m = size', usedMemory_m = 0, numAllocations_m = 0,
                freeBlocks_m = mem + adj\<rparr>"
    and fl: "free_list m' (mem + adj) ?sl"
    by auto
  have fit: "unat (mem + adj) + ?N * unat (sizeofT T) \<le> 2 ^ LENGTH(64)"
    using g(7) arena by simp
  have first: "mem + adj \<noteq> nullptr"
  proof
    assume "mem + adj = nullptr"
    then have "unat (mem + adj) = 0" by simp
    with g(6) have "unat mem = 0" by simp
    with mem show False by (simp add: unat_eq_0)
  qed
  have "distinct ?sl" by (rule distinct_slots [OF fit g(2)])
  moreover have "nullptr \<notin> set ?sl" by (rule null_notin_slots [OF fit g(2) first])
  ultimately show ?thesis
    using fl unfolding st0 pool_inv_def by (simp add: a)
qed

text \<open>
  Exhaustion and recovery where at least one slot fits. A pool is constructed over an arena that
  holds exactly \<open>N\<close> slots, \<open>N\<close> at least 1; the arena lies inside the address space and does not
  start at \<^verbatim>\<open>nullptr\<close>. Then \<open>N\<close> consecutive calls of \<^verbatim>\<open>Allocate(sizeof(T), alignof(T))\<close> succeed
  and return the \<open>N\<close> slot addresses, each once; the call after them fails with \<open>OutOfMemory\<close>.
  After any of the returned addresses have been freed, each once and in any order \<open>fs\<close>, as many
  calls of \<^verbatim>\<open>Allocate\<close> succeed again; they return the freed addresses, the last freed first.
  The arena that holds no slot is treated with the number of slots below: there the first call
  of \<^verbatim>\<open>Allocate\<close> does not fail.
\<close>

theorem PoolAllocator_exhaustion_and_recovery:
  assumes ctor: "PoolAllocator_ctor T size' mem m = Inr st0"
    and adj: "CalculateAlignForwardAdjustment mem (alignofT T) = Inr adj"
    and N: "slots_that_fit T size' adj = int N" 
    and pos: "1 \<le> N"
    and arena: "unat mem + unat size' \<le> 2 ^ 64"
    and mem: "mem \<noteq> nullptr"
  shows "\<exists>ps st1.
           allocate_n T N st0 = (Inr ps, st1) \<and>
           ps = slots (mem + adj) (sizeofT T) N \<and> length ps = N \<and> distinct ps \<and>
           fst (PoolAllocator_Allocate T (sizeofT T) (alignofT T) st1) = Inl OutOfMemory \<and>
           (\<forall>fs. distinct fs \<and> set fs \<subseteq> set ps \<longrightarrow>
              (\<exists>st2. allocate_n T (length fs) (deallocate_all T fs st1) = (Inr (rev fs), st2)))"
proof -
  have big: "\<not> sizeofT T < sizeof_ptr" by (rule PoolAllocator_ctor_Inr_big [OF ctor])
  then have szpos: "0 < unat (sizeofT T)" by (simp add: word_less_nat_alt sizeof_ptr_def)
  from N pos have "1 \<le> slots_that_fit T size' adj" by simp
  then have fits: "unat adj + unat (sizeofT T) \<le> unat size'"
    by (simp only: slots_that_fit_ge_1 [OF szpos])
  then have "unat adj \<le> unat size'" by simp
  from slots_that_fit_code [OF this, of T] N
  have "int (unat ((size' - adj) div sizeofT T)) = int N" by (simp only:)
  then have N': "unat ((size' - adj) div sizeofT T) = N" by (simp only: of_nat_eq_iff)
  from arena have arena': "unat mem + unat size' \<le> 2 ^ LENGTH(64)" by simp
  let ?sl = "slots (mem + adj) (sizeofT T) N"
  have inv0: "pool_inv T (set ?sl) st0 (?sl @ []) []"
    using PoolAllocator_ctor_inv [OF ctor adj fits arena' mem] unfolding N' by simp
  from allocate_n_inv [OF inv0] obtain st1 where
    alloc: "allocate_n T N st0 = (Inr ?sl, st1)"
    and inv1: "pool_inv T (set ?sl) st1 [] (rev ?sl @ [])"
    by auto
  have full: "fst (PoolAllocator_Allocate T (sizeofT T) (alignofT T) st1) = Inl OutOfMemory"
    by (simp add: pool_inv_Allocate_empty [OF inv1])
  from inv0 have dist: "distinct ?sl" by (simp add: pool_inv_def)
  have again: "\<exists>st2. allocate_n T (length fs) (deallocate_all T fs st1) = (Inr (rev fs), st2)"
    if fs: "distinct fs" "set fs \<subseteq> set ?sl" for fs
  proof -
    from fs(2) have "set fs \<subseteq> set (rev ?sl @ [])" by simp
    from deallocate_all_inv [OF inv1 fs(1) this]
    have "pool_inv T (set ?sl) (deallocate_all T fs st1) (rev fs @ [])
            (filter (\<lambda>x. x \<notin> set fs) (rev ?sl @ []))" .
    from allocate_n_inv [OF this] show ?thesis by auto
  qed
  from alloc full dist again show ?thesis by auto
qed


lemma CalculateAlignForwardAdjustment_0x1001_8:
  "CalculateAlignForwardAdjustment 0x1001 8 = Inr 7"
  by (simp add: CalculateAlignForwardAdjustment_def neko_assert_def)

lemma slots_0x1008_16_2: "slots 0x1008 16 2 = [0x1008, 0x1018]"
  by (simp add: slots_def slot_def upt_rec)

text \<open>An instance: 16-byte elements of alignment 8 in a 40-byte arena at \<^verbatim>\<open>0x1001\<close>. Seven
  bytes are lost to alignment and two slots fit, at \<^verbatim>\<open>0x1008\<close> and \<^verbatim>\<open>0x1018\<close>.\<close>

theorem PoolAllocator_exhaustion_and_recovery_witness:
  "\<exists>st0 st1 st2.
     PoolAllocator_ctor \<lparr>sizeofT = 16, alignofT = 8\<rparr> 40 0x1001 (\<lambda>_. 0) = Inr st0 \<and>
     allocate_n \<lparr>sizeofT = 16, alignofT = 8\<rparr> 2 st0 = (Inr [0x1008, 0x1018], st1) \<and>
     fst (PoolAllocator_Allocate \<lparr>sizeofT = 16, alignofT = 8\<rparr> 16 8 st1) = Inl OutOfMemory \<and>
     allocate_n \<lparr>sizeofT = 16, alignofT = 8\<rparr> 2
       (deallocate_all \<lparr>sizeofT = 16, alignofT = 8\<rparr> [0x1018, 0x1008] st1)
       = (Inr [0x1008, 0x1018], st2)"
proof -
  let ?T = "\<lparr>sizeofT = 16, alignofT = 8\<rparr>"
  have adj: "CalculateAlignForwardAdjustment 0x1001 (alignofT ?T) = Inr 7"
    by (simp add: CalculateAlignForwardAdjustment_0x1001_8)
  have big: "\<not> sizeofT ?T < sizeof_ptr" by (simp add: sizeof_ptr_def)
  obtain st0 where ctor: "PoolAllocator_ctor ?T 40 0x1001 (\<lambda>_. 0) = Inr st0"
    using PoolAllocator_ctor_closed [OF big adj] by blast
  have N: "slots_that_fit ?T 40 7 = int 2" by (simp add: slots_that_fit_def)
  have arena: "unat (0x1001::addr) + unat (40::size_t) \<le> 2 ^ 64" by simp
  from PoolAllocator_exhaustion_and_recovery [OF ctor adj N _ arena]
  obtain ps st1 where
    a: "allocate_n ?T 2 st0 = (Inr ps, st1)"
    and ps: "ps = slots (0x1001 + 7) (sizeofT ?T) 2"
    and full: "fst (PoolAllocator_Allocate ?T (sizeofT ?T) (alignofT ?T) st1) = Inl OutOfMemory"
    and again: "\<forall>fs. distinct fs \<and> set fs \<subseteq> set ps \<longrightarrow>
      (\<exists>st2. allocate_n ?T (length fs) (deallocate_all ?T fs st1) = (Inr (rev fs), st2))"
    by auto
  from ps have ps': "ps = [0x1008, 0x1018]" by (simp add: slots_0x1008_16_2)
  have fs: "distinct [0x1018, 0x1008::addr] \<and> set [0x1018, 0x1008] \<subseteq> set ps"
    unfolding ps' by simp
  have len: "length [0x1018, 0x1008::addr] = 2" and rev: "rev [0x1018, 0x1008::addr] = [0x1008, 0x1018]"
    by simp_all
  from again [rule_format, OF fs] obtain st2 where
    "allocate_n ?T (length [0x1018, 0x1008::addr]) (deallocate_all ?T [0x1018, 0x1008] st1)
       = (Inr (rev [0x1018, 0x1008]), st2)"
    by blast
  then have b: "allocate_n ?T 2 (deallocate_all ?T [0x1018, 0x1008] st1)
       = (Inr [0x1008, 0x1018], st2)"
    unfolding len rev .
  from full have full': "fst (PoolAllocator_Allocate ?T 16 8 st1) = Inl OutOfMemory"
    by (simp del: PoolAllocator_Allocate.simps)
  from ctor a [unfolded ps'] full' b show ?thesis by blast
qed


section \<open>The pool allocator: requests of the wrong shape\<close>

text \<open>
  Claim C6. A call of \<^verbatim>\<open>Allocate(size, alignment)\<close> on a pool whose size differs from
  \<^verbatim>\<open>sizeof(T)\<close> or whose alignment differs from \<^verbatim>\<open>alignof(T)\<close> fails with \<open>SizeMismatch\<close>, and
  the allocator and the memory are as they were before the call.
\<close>

theorem PoolAllocator_Allocate_SizeMismatch:
  assumes "allocatedSize \<noteq> sizeofT T \<or> alignment \<noteq> alignofT T"
  shows "PoolAllocator_Allocate T allocatedSize alignment st = (Inl SizeMismatch, st)"
proof -
  obtain a m where st: "st = (a, m)" by (cases st)
  from assms show ?thesis unfolding st by (auto simp: neko_assert_def)
qed

text \<open>An instance: 8 bytes requested from a pool of 16-byte elements.\<close>

theorem PoolAllocator_Allocate_SizeMismatch_witness:
  "PoolAllocator_Allocate \<lparr>sizeofT = 16, alignofT = 8\<rparr> 8 8
     (\<lparr>start_m = 0x1000, size_m = 32, usedMemory_m = 0, numAllocations_m = 0,
        freeBlocks_m = 0x1000\<rparr>, (\<lambda>_. 0)(0x1000 := 0x1010))
   = (Inl SizeMismatch,
      (\<lparr>start_m = 0x1000, size_m = 32, usedMemory_m = 0, numAllocations_m = 0,
         freeBlocks_m = 0x1000\<rparr>, (\<lambda>_. 0)(0x1000 := 0x1010)))"
  by (rule PoolAllocator_Allocate_SizeMismatch) simp


section \<open>The pool allocator: the counters\<close>

lemma PoolAllocator_Allocate_Inr:
  assumes "PoolAllocator_Allocate T allocatedSize alignment st = (Inr p, st')"
  shows "usedMemory_m (fst st') = usedMemory_m (fst st) + allocatedSize"
    and "numAllocations_m (fst st') = numAllocations_m (fst st) + 1"
    and "start_m (fst st') = start_m (fst st)" and "size_m (fst st') = size_m (fst st)"
    and "allocatedSize = sizeofT T" and "alignment = alignofT T"
    and "p = freeBlocks_m (fst st)" and "p \<noteq> nullptr"
proof -
  obtain a m where st: "st = (a, m)" by (cases st)
  from assms have "usedMemory_m (fst st') = usedMemory_m (fst st) + allocatedSize \<and>
    numAllocations_m (fst st') = numAllocations_m (fst st) + 1 \<and>
    start_m (fst st') = start_m (fst st) \<and> size_m (fst st') = size_m (fst st) \<and>
    allocatedSize = sizeofT T \<and> alignment = alignofT T \<and>
    p = freeBlocks_m (fst st) \<and> p \<noteq> nullptr"
    unfolding st by (auto simp: neko_assert_def Let_def split: if_splits)
  then show "usedMemory_m (fst st') = usedMemory_m (fst st) + allocatedSize"
    and "numAllocations_m (fst st') = numAllocations_m (fst st) + 1"
    and "start_m (fst st') = start_m (fst st)" and "size_m (fst st') = size_m (fst st)"
    and "allocatedSize = sizeofT T" and "alignment = alignofT T"
    and "p = freeBlocks_m (fst st)" and "p \<noteq> nullptr"
    by blast+
qed

lemma PoolAllocator_Deallocate_fields:
  "usedMemory_m (fst (PoolAllocator_Deallocate T p st)) = usedMemory_m (fst st) - sizeofT T"
  "numAllocations_m (fst (PoolAllocator_Deallocate T p st)) = numAllocations_m (fst st) - 1"
  "start_m (fst (PoolAllocator_Deallocate T p st)) = start_m (fst st)"
  "size_m (fst (PoolAllocator_Deallocate T p st)) = size_m (fst st)"
  by (cases st; simp add: Let_def)+

lemma run_ops_counters:
  assumes "run_ops T ops st live = Some (st', live')"
  shows "numAllocations_m (fst st') + of_nat (length (filter (\<lambda>x. \<not> is_Allocate x) ops))
           = numAllocations_m (fst st) + of_nat (length (filter is_Allocate ops)) \<and>
         usedMemory_m (fst st') + of_nat (length (filter (\<lambda>x. \<not> is_Allocate x) ops)) * sizeofT T
           = usedMemory_m (fst st) + of_nat (length (filter is_Allocate ops)) * sizeofT T \<and>
         length live' + length (filter (\<lambda>x. \<not> is_Allocate x) ops)
           = length live + length (filter is_Allocate ops) \<and>
         start_m (fst st') = start_m (fst st) \<and> size_m (fst st') = size_m (fst st)"
  using assms
proof (induction ops arbitrary: st live)
  case Nil
  then show ?case by simp
next
  case (Cons op ops)
  show ?case
  proof (cases op)
    case Allocate
    with Cons.prems obtain p st1 where
      a: "PoolAllocator_Allocate T (sizeofT T) (alignofT T) st = (Inr p, st1)"
      and r: "run_ops T ops st1 (p # live) = Some (st', live')"
      by (auto split: prod.splits sum.splits)
    note f = PoolAllocator_Allocate_Inr(1-4) [OF a]
    from Cons.IH [OF r] show ?thesis
      unfolding Allocate f by (simp add: algebra_simps)
  next
    case (Deallocate p)
    with Cons.prems have p: "p \<in> set live"
      and r: "run_ops T ops (PoolAllocator_Deallocate T p st) (remove1 p live) = Some (st', live')"
      by (simp_all split: if_splits)
    from p have len: "length live = Suc (length (remove1 p live))"
      by (simp add: length_remove1) (cases live; simp)
    from Cons.IH [OF r] show ?thesis
      unfolding Deallocate PoolAllocator_Deallocate_fields len by (simp add: algebra_simps)
  qed
qed


lemma PoolAllocator_ctor_counters:
  assumes "PoolAllocator_ctor T size' mem m = Inr st0"
  shows "usedMemory_m (fst st0) = 0" and "numAllocations_m (fst st0) = 0"
    and "start_m (fst st0) = mem" and "size_m (fst st0) = size'"
  using assms
  by (auto simp: PoolAllocator_ctor_def Allocator_ctor_def Let_def Allocator.extend_def
      PoolAllocator.fields_def split: if_splits sum.splits prod.splits)

text \<open>What the invariant says about the counters as numbers, in a pool whose slots fit into
  \<open>bound\<close> bytes.\<close>

lemma pool_inv_unat:
  assumes inv: "pool_inv T S st fl live"
    and card: "card S * unat (sizeofT T) \<le> bound" and bound: "bound < 2 ^ LENGTH(64)"
    and sz: "0 < unat (sizeofT T)"
  shows "unat (numAllocations_m (fst st)) = length live"
    and "unat (usedMemory_m (fst st)) = length live * unat (sizeofT T)"
    and "length live * unat (sizeofT T) \<le> bound"
proof -
  from inv have dist: "distinct (fl @ live)" and S: "S = set (fl @ live)"
    and num: "numAllocations_m (fst st) = of_nat (length live)"
    and used: "usedMemory_m (fst st) = of_nat (length live) * sizeofT T"
    unfolding pool_inv_def by blast+
  have "card S = length (fl @ live)" unfolding S using dist by (rule distinct_card)
  then have "length live \<le> card S" by simp
  then have "length live * unat (sizeofT T) \<le> card S * unat (sizeofT T)"
    by (rule mult_le_mono1)
  from this card show le: "length live * unat (sizeofT T) \<le> bound" by (rule order_trans)
  with bound have lt: "length live * unat (sizeofT T) < 2 ^ LENGTH(64)" by simp
  have "length live \<le> length live * unat (sizeofT T)" using sz by simp
  from this lt have "length live < 2 ^ LENGTH(64)" by (rule le_less_trans)
  then show n: "unat (numAllocations_m (fst st)) = length live"
    unfolding num by (simp add: unat_of_nat)
  have "unat (of_nat (length live) :: size_t) * unat (sizeofT T) < 2 ^ LENGTH(64)"
    using lt n unfolding num by simp
  then have "unat (of_nat (length live) * sizeofT T) = unat (of_nat (length live) :: size_t) * unat (sizeofT T)"
    by (simp only: unat_mult_lem [THEN iffD1])
  then show "unat (usedMemory_m (fst st)) = length live * unat (sizeofT T)"
    using n unfolding used num by simp
qed

text \<open>
  Claim C9. A pool is constructed, and then a sequence of calls is run, each a successful
  \<^verbatim>\<open>Allocate(sizeof(T), alignof(T))\<close> or a \<^verbatim>\<open>Deallocate\<close> of an address that is live. Right after
  construction both counters are 0. After the sequence \<^verbatim>\<open>usedMemory_\<close> equals \<^verbatim>\<open>numAllocations_\<close>
  times \<^verbatim>\<open>sizeof(T)\<close>, and \<^verbatim>\<open>numAllocations_\<close> is the number of live addresses. A successful
  \<^verbatim>\<open>Allocate\<close> adds \<^verbatim>\<open>sizeof(T)\<close> and 1 to the counters and \<^verbatim>\<open>Deallocate\<close> subtracts the same, so
  a sequence with as many calls of one as of the other leaves both counters at their initial
  values. These equations hold in \<^verbatim>\<open>size_t\<close>; when the arena holds at least one slot, lies inside
  the address space and does not start at \<^verbatim>\<open>nullptr\<close>, they hold for the numbers as well, and
  \<^verbatim>\<open>usedMemory_\<close> never exceeds the size of the arena.
\<close>

theorem PoolAllocator_counters:
  assumes ctor: "PoolAllocator_ctor T size' mem m = Inr st0"
    and run: "run_ops T ops st0 [] = Some (st, live)"
  shows "usedMemory_m (fst st0) = 0 \<and> numAllocations_m (fst st0) = 0 \<and>
         usedMemory_m (fst st) = numAllocations_m (fst st) * sizeofT T \<and>
         numAllocations_m (fst st) = of_nat (length live) \<and>
         (\<forall>s p s'. PoolAllocator_Allocate T (sizeofT T) (alignofT T) s = (Inr p, s') \<longrightarrow>
            usedMemory_m (fst s') = usedMemory_m (fst s) + sizeofT T \<and>
            numAllocations_m (fst s') = numAllocations_m (fst s) + 1) \<and>
         (\<forall>s p.
            usedMemory_m (fst (PoolAllocator_Deallocate T p s)) = usedMemory_m (fst s) - sizeofT T \<and>
            numAllocations_m (fst (PoolAllocator_Deallocate T p s)) = numAllocations_m (fst s) - 1) \<and>
         (length (filter is_Allocate ops) = length (filter (\<lambda>x. \<not> is_Allocate x) ops) \<longrightarrow>
            usedMemory_m (fst st) = usedMemory_m (fst st0) \<and>
            numAllocations_m (fst st) = numAllocations_m (fst st0)) \<and>
         (\<forall>adj. CalculateAlignForwardAdjustment mem (alignofT T) = Inr adj \<and>
            1 \<le> slots_that_fit T size' adj \<and> unat mem + unat size' \<le> 2 ^ 64 \<and>
            mem \<noteq> nullptr \<longrightarrow>
            unat (numAllocations_m (fst st)) = length live \<and>
            unat (usedMemory_m (fst st)) = unat (numAllocations_m (fst st)) * unat (sizeofT T) \<and>
            unat (usedMemory_m (fst st)) \<le> unat size')"
proof -
  let ?a = "length (filter is_Allocate ops)"
  let ?d = "length (filter (\<lambda>x. \<not> is_Allocate x) ops)"
  note z = PoolAllocator_ctor_counters(1,2) [OF ctor]
  from run_ops_counters [OF run]
  have num: "numAllocations_m (fst st) + of_nat ?d = of_nat ?a"
    and used: "usedMemory_m (fst st) + of_nat ?d * sizeofT T = of_nat ?a * sizeofT T"
    and len: "length live + ?d = ?a"
    by (simp_all add: z)
  from len have "(of_nat (length live) :: size_t) + of_nat ?d = of_nat ?a"
    by (simp only: of_nat_add [symmetric])
  with num have "numAllocations_m (fst st) + of_nat ?d = of_nat (length live) + of_nat ?d"
    by (simp only:)
  then have n: "numAllocations_m (fst st) = of_nat (length live)"
    by (simp only: add_right_cancel)
  from used have "usedMemory_m (fst st) = (of_nat ?a - of_nat ?d) * sizeofT T"
    by (simp add: algebra_simps)
  moreover from num have "numAllocations_m (fst st) = of_nat ?a - of_nat ?d"
    by (simp add: algebra_simps)
  ultimately have u: "usedMemory_m (fst st) = numAllocations_m (fst st) * sizeofT T" by simp
  have alloc: "usedMemory_m (fst s') = usedMemory_m (fst s) + sizeofT T \<and>
      numAllocations_m (fst s') = numAllocations_m (fst s) + 1"
    if "PoolAllocator_Allocate T (sizeofT T) (alignofT T) s = (Inr p, s')" for s p s'
    using PoolAllocator_Allocate_Inr(1,2) [OF that] by simp
  have balanced: "usedMemory_m (fst st) = usedMemory_m (fst st0) \<and>
      numAllocations_m (fst st) = numAllocations_m (fst st0)" if "?a = ?d"
    using num used that by (simp add: z)
  have numbers: "unat (numAllocations_m (fst st)) = length live \<and>
      unat (usedMemory_m (fst st)) = unat (numAllocations_m (fst st)) * unat (sizeofT T) \<and>
      unat (usedMemory_m (fst st)) \<le> unat size'"
    if adj: "CalculateAlignForwardAdjustment mem (alignofT T) = Inr adj"
      and one: "1 \<le> slots_that_fit T size' adj"
      and arena: "unat mem + unat size' \<le> 2 ^ 64" and mem: "mem \<noteq> nullptr" for adj
  proof -
    have big: "\<not> sizeofT T < sizeof_ptr" by (rule PoolAllocator_ctor_Inr_big [OF ctor])
    then have szpos: "0 < unat (sizeofT T)" by (simp add: word_less_nat_alt sizeof_ptr_def)
    from one have fits: "unat adj + unat (sizeofT T) \<le> unat size'"
      by (simp only: slots_that_fit_ge_1 [OF szpos])
    from arena have arena': "unat mem + unat size' \<le> 2 ^ LENGTH(64)" by simp
    note g = pool_geometry [OF big fits arena']
    let ?N = "unat ((size' - adj) div sizeofT T)"
    let ?sl = "slots (mem + adj) (sizeofT T) ?N"
    have inv0: "pool_inv T (set ?sl) st0 ?sl []"
      by (rule PoolAllocator_ctor_inv [OF ctor adj fits arena' mem])
    from run_ops_inv [OF inv0 run] obtain fl where inv: "pool_inv T (set ?sl) st fl live" ..
    have "card (set ?sl) \<le> length ?sl" by (rule card_length)
    then have "card (set ?sl) * unat (sizeofT T) \<le> ?N * unat (sizeofT T)"
      by (simp add: mult_le_mono1)
    also have "\<dots> \<le> unat size'" using g(6,7) by simp
    finally have card: "card (set ?sl) * unat (sizeofT T) \<le> unat size'" .
    have bound: "unat size' < 2 ^ LENGTH(64)" by (rule unsigned_less)
    note pool_inv_unat [OF inv card bound szpos]
    then show ?thesis by simp
  qed
  have dealloc: "usedMemory_m (fst (PoolAllocator_Deallocate T p s)) = usedMemory_m (fst s) - sizeofT T \<and>
      numAllocations_m (fst (PoolAllocator_Deallocate T p s)) = numAllocations_m (fst s) - 1"
    for s p
    by (simp add: PoolAllocator_Deallocate_fields)
  from z u n alloc dealloc balanced numbers show ?thesis by blast
qed

text \<open>An instance: two allocations and one deallocation in the pool of two 16-byte slots.\<close>

theorem PoolAllocator_counters_witness:
  "\<exists>st0 st.
     PoolAllocator_ctor \<lparr>sizeofT = 16, alignofT = 8\<rparr> 40 0x1001 (\<lambda>_. 0) = Inr st0 \<and>
     run_ops \<lparr>sizeofT = 16, alignofT = 8\<rparr> [Allocate, Allocate, Deallocate 0x1008] st0 []
       = Some (st, [0x1018]) \<and>
     usedMemory_m (fst st) = 16 \<and> numAllocations_m (fst st) = 1"
proof -
  let ?T = "\<lparr>sizeofT = 16, alignofT = 8\<rparr>"
  let ?ops = "[Allocate, Allocate, Deallocate 0x1008]"
  have adj: "CalculateAlignForwardAdjustment 0x1001 (alignofT ?T) = Inr 7"
    by (simp add: CalculateAlignForwardAdjustment_0x1001_8)
  have big: "\<not> sizeofT ?T < sizeof_ptr" by (simp add: sizeof_ptr_def)
  note c = PoolAllocator_ctor_closed [OF big adj, of 40 "\<lambda>_. 0"]
  obtain st0 where ctor: "PoolAllocator_ctor ?T 40 0x1001 (\<lambda>_. 0) = Inr st0"
    using c by blast
  obtain st where run: "run_ops ?T ?ops st0 [] = Some (st, [0x1018])"
    using ctor unfolding c by (auto simp: neko_assert_def Let_def slot_def)
  from PoolAllocator_counters [OF ctor run]
  have "usedMemory_m (fst st) = numAllocations_m (fst st) * sizeofT ?T"
    and "numAllocations_m (fst st) = of_nat (length [0x1018::addr])"
    by blast+
  then have "usedMemory_m (fst st) = 16 \<and> numAllocations_m (fst st) = 1" by simp
  with ctor run show ?thesis by blast
qed


section \<open>The pool allocator: arenas without room for a slot\<close>

text \<open>Whatever the memory holds, the constructor overwrites the block at every slot that its
  loop passes and the block at the slot where the loop stops.\<close>

lemma PoolAllocator_ctor_overwrites:
  assumes big: "\<not> sizeofT T < sizeof_ptr"
    and adj: "CalculateAlignForwardAdjustment mem (alignofT T) = Inr adj"
    and j: "j \<le> unat ((size' - adj) div sizeofT T - 1)"
  shows "\<exists>m a m'. PoolAllocator_ctor T size' mem m = Inr (a, m') \<and>
           m' (slot (mem + adj) (sizeofT T) j) \<noteq> m (slot (mem + adj) (sizeofT T) j)"
proof -
  let ?J = "unat ((size' - adj) div sizeofT T - 1)"
  let ?x = "slot (mem + adj) (sizeofT T) j"
  define v :: addr where "v = (if ?x + sizeofT T = 1 then 2 else 1)"
  have v: "v \<noteq> 0" "v \<noteq> ?x + sizeofT T" by (auto simp: v_def)
  let ?m = "\<lambda>_::addr. v"
  let ?m' = "(\<lambda>a. if \<exists>k<?J. a = slot (mem + adj) (sizeofT T) k then a + sizeofT T else ?m a)
               (slot (mem + adj) (sizeofT T) ?J := nullptr)"
  have "?m' ?x \<noteq> v"
  proof (cases "?x = slot (mem + adj) (sizeofT T) ?J")
    case True
    then show ?thesis using v(1) by simp
  next
    case False
    then have "j \<noteq> ?J" by auto
    with j have "j < ?J" by simp
    then have "\<exists>k<?J. ?x = slot (mem + adj) (sizeofT T) k" by blast
    with False show ?thesis using v(2) by simp
  qed
  with PoolAllocator_ctor_closed [OF big adj, of size' ?m] show ?thesis by blast
qed

lemma unat_minus_1_size_t: "unat (0 - 1 :: size_t) = 2 ^ LENGTH(64) - 1"
  by (simp add: unsigned_minus_1_eq_mask mask_eq_exp_minus_1)

text \<open>The adjustment for a valid type stays below the alignment, and adding the size of the
  type to it does not leave the range of \<^verbatim>\<open>size_t\<close>.\<close>

lemma valid_element_type_adj:
  assumes valid: "valid_element_type T"
    and adj: "CalculateAlignForwardAdjustment mem (alignofT T) = Inr adj"
  shows "unat adj + unat (sizeofT T) < 2 ^ LENGTH(64)"
proof -
  from valid obtain k where k: "k < 64" and al: "alignofT T = 2 ^ k"
    and ual: "unat (alignofT T) = 2 ^ k"
    unfolding valid_element_type_def by (auto elim: power_of_twoE)
  from valid have dvd: "(2::nat) ^ k dvd unat (sizeofT T)"
    unfolding valid_element_type_def ual by simp
  from CalculateAlignForwardAdjustment_pow2 [OF k, of mem] adj
  have "unat adj = (2 ^ k - unat mem mod 2 ^ k) mod 2 ^ k" unfolding al by auto
  then have small: "unat adj < 2 ^ k" by simp
  have lt: "unat (sizeofT T) < 2 ^ LENGTH(64)" by (rule unsigned_less)
  have "(2::nat) ^ k dvd 2 ^ LENGTH(64)"
    using k by (intro le_imp_power_dvd) simp
  from this dvd have "(2::nat) ^ k dvd 2 ^ LENGTH(64) - unat (sizeofT T)" by (rule dvd_diff_nat)
  moreover have "0 < 2 ^ LENGTH(64) - unat (sizeofT T)" using lt by simp
  ultimately have "(2::nat) ^ k \<le> 2 ^ LENGTH(64) - unat (sizeofT T)" by (rule dvd_imp_le)
  with small lt show ?thesis by simp
qed

text \<open>When no slot fits, one of the first two blocks that the constructor writes lies outside
  the arena.\<close>

lemma PoolAllocator_ctor_escapes:
  assumes valid: "valid_element_type T"
    and big: "\<not> sizeofT T < sizeof_ptr"
    and adj: "CalculateAlignForwardAdjustment mem (alignofT T) = Inr adj"
    and arena: "unat mem + unat size' \<le> 2 ^ LENGTH(64)"
    and nofit: "\<not> unat adj + unat (sizeofT T) \<le> unat size'"
  shows "\<exists>j \<le> unat ((size' - adj) div sizeofT T - 1).
           \<not> in_arena mem size' (slot (mem + adj) (sizeofT T) j)"
proof -
  let ?sz = "sizeofT T"
  let ?p = "mem + adj"
  let ?J = "unat ((size' - adj) div ?sz - 1)"
  define W :: nat where "W = 2 ^ LENGTH(64)"
  have szpos: "0 < unat ?sz" using big by (simp add: word_less_nat_alt sizeof_ptr_def)
  have ptr: "0 < unat sizeof_ptr" by (simp add: sizeof_ptr_def)
  have room: "unat adj + unat ?sz < W"
    unfolding W_def by (rule valid_element_type_adj [OF valid adj])
  have up: "unat ?p = (if unat mem + unat adj < W then unat mem + unat adj
                       else unat mem + unat adj - W)"
    unfolding W_def by (rule unat_plus_if')
  have us: "unat (?p + ?sz) = (if unat ?p + unat ?sz < W then unat ?p + unat ?sz
                       else unat ?p + unat ?sz - W)"
    unfolding W_def by (rule unat_plus_if')
  have adj_lt: "unat adj < W" unfolding W_def by (rule unsigned_less)
  have arena': "unat mem + unat size' \<le> W" unfolding W_def by (rule arena)
  show ?thesis
  proof (cases "in_arena mem size' ?p")
    case False
    then have "0 \<le> ?J \<and> \<not> in_arena mem size' (slot ?p ?sz 0)" by simp
    then show ?thesis by blast
  next
    case True
    then have lo: "unat mem \<le> unat ?p"
      and hi: "unat ?p + unat sizeof_ptr \<le> unat mem + unat size'"
      by (simp_all add: in_arena_def)
    have p: "unat ?p = unat mem + unat adj"
      using up adj_lt lo by (cases "unat mem + unat adj < W") simp_all
    from hi ptr have le: "unat adj \<le> unat size'" unfolding p by simp
    then have "adj \<le> size'" by (simp add: word_le_nat_alt)
    then have "unat (size' - adj) = unat size' - unat adj" by (rule unat_sub)
    then have "unat ((size' - adj) div ?sz) = (unat size' - unat adj) div unat ?sz"
      by (simp add: unat_div)
    also have "\<dots> = 0" using nofit le by simp
    finally have "(size' - adj) div ?sz = 0" by (simp add: unat_eq_0)
    then have J: "?J = 2 ^ LENGTH(64) - 1" by (simp only: unat_minus_1_size_t)
    have one: "1 \<le> ?J" unfolding J by simp
    have s1: "slot ?p ?sz 1 = ?p + ?sz" by (simp add: slot_def)
    have "\<not> (unat mem \<le> unat (?p + ?sz) \<and>
              unat (?p + ?sz) + unat sizeof_ptr \<le> unat mem + unat size')"
      using us room nofit arena' unfolding p
      by (cases "unat mem + unat adj + unat ?sz < W") simp_all
    then have "\<not> in_arena mem size' (?p + ?sz)" unfolding in_arena_def .
    with one s1 have "1 \<le> ?J \<and> \<not> in_arena mem size' (slot ?p ?sz 1)" by simp
    then show ?thesis by blast
  qed
qed


text \<open>
  Claim C10. The type passes the \<^verbatim>\<open>static_assert\<close> and the arena lies inside the address space.
  The loop of the constructor runs \<^verbatim>\<open>numObjects - 1\<close> rounds, computed in \<^verbatim>\<open>size_t\<close>: it stops that
  many slots after the first. When at least one slot fits, \<open>floor ((size - adjustment) /
  sizeof(T)) \<ge> 1\<close>, that is one round less than the number of slots, the constructor returns,
  every block it writes lies inside the arena (outside the arena the memory is as before), and
  the block at the last slot holds \<^verbatim>\<open>nullptr\<close>. When no slot fits, for a valid type \<^verbatim>\<open>T\<close>, the
  constructor changes a block outside the arena: the precondition is required.
\<close>

theorem PoolAllocator_ctor_requires_a_slot:
  assumes big: "sizeof_ptr \<le> sizeofT T"
    and adj: "CalculateAlignForwardAdjustment mem (alignofT T) = Inr adj"
    and arena: "unat mem + unat size' \<le> 2 ^ 64"
  shows "(\<forall>m. fst (PoolAllocator_ctor_loop (sizeofT T) ((size' - adj) div sizeofT T) 0 (mem + adj) m)
              = slot (mem + adj) (sizeofT T) (unat ((size' - adj) div sizeofT T - 1))) \<and>
         (1 \<le> slots_that_fit T size' adj \<longrightarrow>
            unat ((size' - adj) div sizeofT T - 1) = nat (slots_that_fit T size' adj) - 1 \<and>
            in_arena mem size'
              (slot (mem + adj) (sizeofT T) (nat (slots_that_fit T size' adj) - 1)) \<and>
            (\<forall>m. \<exists>a m'. PoolAllocator_ctor T size' mem m = Inr (a, m') \<and>
               (\<forall>x. \<not> in_arena mem size' x \<longrightarrow> m' x = m x) \<and>
               m' (slot (mem + adj) (sizeofT T) (nat (slots_that_fit T size' adj) - 1)) = nullptr)) \<and>
         (valid_element_type T \<and> \<not> 1 \<le> slots_that_fit T size' adj \<longrightarrow>
            (\<exists>m a m' x. PoolAllocator_ctor T size' mem m = Inr (a, m') \<and>
               \<not> in_arena mem size' x \<and> m' x \<noteq> m x))"
proof -
  let ?sz = "sizeofT T"
  let ?n = "(size' - adj) div ?sz"
  from big have big': "\<not> ?sz < sizeof_ptr" by simp
  then have szpos: "0 < unat ?sz" by (simp add: word_less_nat_alt sizeof_ptr_def)
  from arena have arena': "unat mem + unat size' \<le> 2 ^ LENGTH(64)" by simp
  have rounds: "fst (PoolAllocator_ctor_loop ?sz ?n 0 (mem + adj) m)
      = slot (mem + adj) ?sz (unat (?n - 1))" for m
  proof -
    have "unat (0::size_t) + unat (?n - 1) = unat (?n - 1)" by simp
    from PoolAllocator_ctor_loop_closed [OF this] show ?thesis by simp
  qed
  have enough: "unat (?n - 1) = nat (slots_that_fit T size' adj) - 1 \<and>
      in_arena mem size' (slot (mem + adj) ?sz (nat (slots_that_fit T size' adj) - 1)) \<and>
      (\<forall>m. \<exists>a m'. PoolAllocator_ctor T size' mem m = Inr (a, m') \<and>
         (\<forall>x. \<not> in_arena mem size' x \<longrightarrow> m' x = m x) \<and>
         m' (slot (mem + adj) ?sz (nat (slots_that_fit T size' adj) - 1)) = nullptr)"
    if one: "1 \<le> slots_that_fit T size' adj"
  proof -
    from one have fits: "unat adj + unat ?sz \<le> unat size'"
      by (simp only: slots_that_fit_ge_1 [OF szpos])
    then have "unat adj \<le> unat size'" by simp
    from slots_that_fit_code [OF this, of T]
    have N: "nat (slots_that_fit T size' adj) = unat ?n" by (simp only: nat_int)
    note g = pool_geometry [OF big' fits arena']
    have "\<exists>a m'. PoolAllocator_ctor T size' mem m = Inr (a, m') \<and>
         (\<forall>x. \<not> in_arena mem size' x \<longrightarrow> m' x = m x) \<and>
         m' (slot (mem + adj) ?sz (unat ?n - 1)) = nullptr \<and>
         in_arena mem size' (slot (mem + adj) ?sz (unat ?n - 1))" for m
      using PoolAllocator_ctor_pool [OF big' adj fits arena', of m] by blast
    then show ?thesis unfolding N using g(5) by blast
  qed
  have short: "\<exists>m a m' x. PoolAllocator_ctor T size' mem m = Inr (a, m') \<and>
      \<not> in_arena mem size' x \<and> m' x \<noteq> m x"
    if valid: "valid_element_type T" and none: "\<not> 1 \<le> slots_that_fit T size' adj"
  proof -
    from none have nofit: "\<not> unat adj + unat ?sz \<le> unat size'"
      unfolding slots_that_fit_ge_1 [OF szpos] .
    from PoolAllocator_ctor_escapes [OF valid big' adj arena' nofit]
    obtain j where j: "j \<le> unat (?n - 1)"
      and out: "\<not> in_arena mem size' (slot (mem + adj) ?sz j)" by blast
    from PoolAllocator_ctor_overwrites [OF big' adj j] out show ?thesis by blast
  qed
  from rounds enough short show ?thesis by blast
qed

text \<open>Two instances: the pool of two 16-byte slots, and an 8-byte arena at \<^verbatim>\<open>0x1000\<close> for the
  same type, where no slot fits.\<close>

lemma CalculateAlignForwardAdjustment_0x1000_8:
  "CalculateAlignForwardAdjustment 0x1000 8 = Inr 0"
  by (simp add: CalculateAlignForwardAdjustment_def neko_assert_def)

lemma valid_element_type_16_8: "valid_element_type \<lparr>sizeofT = 16, alignofT = 8\<rparr>"
  by (simp add: valid_element_type_def power_of_two_8)

theorem PoolAllocator_ctor_requires_a_slot_witness:
  "(\<exists>a m'. PoolAllocator_ctor \<lparr>sizeofT = 16, alignofT = 8\<rparr> 40 0x1001 (\<lambda>_. 5) = Inr (a, m') \<and>
      m' 0x1000 = 5 \<and> m' 0x1018 = nullptr) \<and>
   (\<exists>m a m' x. PoolAllocator_ctor \<lparr>sizeofT = 16, alignofT = 8\<rparr> 8 0x1000 m = Inr (a, m') \<and>
      \<not> in_arena 0x1000 8 x \<and> m' x \<noteq> m x)"
proof -
  let ?T = "\<lparr>sizeofT = 16, alignofT = 8\<rparr>"
  have big: "sizeof_ptr \<le> sizeofT ?T" by (simp add: sizeof_ptr_def)
  have adj1: "CalculateAlignForwardAdjustment 0x1001 (alignofT ?T) = Inr 7"
    by (simp add: CalculateAlignForwardAdjustment_0x1001_8)
  have arena1: "unat (0x1001::addr) + unat (40::size_t) \<le> 2 ^ 64" by simp
  have one: "1 \<le> slots_that_fit ?T 40 7" by (simp add: slots_that_fit_def)
  have last: "slot (0x1001 + 7) (sizeofT ?T) (nat (slots_that_fit ?T 40 7) - 1) = 0x1018"
    by (simp add: slots_that_fit_def slot_def)
  have out: "\<not> in_arena 0x1001 40 0x1000" by (simp add: in_arena_def)
  from PoolAllocator_ctor_requires_a_slot [OF big adj1 arena1] one
  obtain a m' where "PoolAllocator_ctor ?T 40 0x1001 (\<lambda>_. 5) = Inr (a, m')"
    and "\<forall>x. \<not> in_arena 0x1001 40 x \<longrightarrow> m' x = 5"
    and "m' (slot (0x1001 + 7) (sizeofT ?T) (nat (slots_that_fit ?T 40 7) - 1)) = nullptr"
    by blast
  with out have first: "\<exists>a m'. PoolAllocator_ctor ?T 40 0x1001 (\<lambda>_. 5) = Inr (a, m') \<and>
      m' 0x1000 = 5 \<and> m' 0x1018 = nullptr"
    unfolding last by blast
  have adj2: "CalculateAlignForwardAdjustment 0x1000 (alignofT ?T) = Inr 0"
    by (simp add: CalculateAlignForwardAdjustment_0x1000_8)
  have arena2: "unat (0x1000::addr) + unat (8::size_t) \<le> 2 ^ 64" by simp
  have none: "\<not> 1 \<le> slots_that_fit ?T 8 0" by (simp add: slots_that_fit_def)
  from PoolAllocator_ctor_requires_a_slot [OF big adj2 arena2] valid_element_type_16_8 none
  have "\<exists>m a m' x. PoolAllocator_ctor ?T 8 0x1000 m = Inr (a, m') \<and>
      \<not> in_arena 0x1000 8 x \<and> m' x \<noteq> m x"
    by blast
  with first show ?thesis by blast
qed


section \<open>The pool allocator: the number of slots\<close>

text \<open>
  Claim C5 at an arena too small for one slot: 8 bytes at \<^verbatim>\<open>0x1000\<close> for a type of 16 bytes.
  \<open>floor ((8 - 0) / 16)\<close> is 0, so the pool should have no slot and an empty free list. But
  \<^verbatim>\<open>numObjects - 1\<close> is \<open>2 ^ 64 - 1\<close> in \<^verbatim>\<open>size_t\<close>, the loop runs, and afterwards the free list
  starts at \<^verbatim>\<open>0x1000\<close> and goes on to \<^verbatim>\<open>0x1010\<close> and \<^verbatim>\<open>0x1020\<close>, outside the arena; a call of
  \<^verbatim>\<open>Allocate\<close> succeeds.
\<close>

theorem PoolAllocator_ctor_small_arena:
  "slots_that_fit \<lparr>sizeofT = 16, alignofT = 8\<rparr> 8 0 = 0 \<and>
   \<not> in_arena 0x1000 8 0x1010 \<and>
   (\<forall>m. \<exists>a m'. PoolAllocator_ctor \<lparr>sizeofT = 16, alignofT = 8\<rparr> 8 0x1000 m = Inr (a, m') \<and>
      freeBlocks_m a = 0x1000 \<and> m' 0x1000 = 0x1010 \<and> m' 0x1010 = 0x1020 \<and>
      fst (PoolAllocator_Allocate \<lparr>sizeofT = 16, alignofT = 8\<rparr> 16 8 (a, m')) = Inr 0x1000)"
proof -
  let ?T = "\<lparr>sizeofT = 16, alignofT = 8\<rparr>"
  let ?J = "unat ((8 - 0) div sizeofT ?T - 1 :: size_t)"
  have big: "\<not> sizeofT ?T < sizeof_ptr" by (simp add: sizeof_ptr_def)
  have adj: "CalculateAlignForwardAdjustment 0x1000 (alignofT ?T) = Inr 0"
    by (simp add: CalculateAlignForwardAdjustment_0x1000_8)
  have J: "?J = 2 ^ LENGTH(64) - 1" by (simp add: unsigned_minus_1_eq_mask mask_eq_exp_minus_1)
  have stop: "slot (0x1000 + 0) (sizeofT ?T) ?J = 0xFF0"
    unfolding J by (simp add: slot_def)
  have e0: "\<exists>k<?J. (0x1000::addr) = slot (0x1000 + 0) (sizeofT ?T) k"
    unfolding J by (rule exI [of _ 0]) simp
  have e1: "\<exists>k<?J. (0x1010::addr) = slot (0x1000 + 0) (sizeofT ?T) k"
    unfolding J by (rule exI [of _ 1]) (simp add: slot_def)
  have "\<exists>a m'. PoolAllocator_ctor ?T 8 0x1000 m = Inr (a, m') \<and>
      freeBlocks_m a = 0x1000 \<and> m' 0x1000 = 0x1010 \<and> m' 0x1010 = 0x1020 \<and>
      fst (PoolAllocator_Allocate ?T 16 8 (a, m')) = Inr 0x1000" for m
    unfolding PoolAllocator_ctor_closed [OF big adj] stop
    using e0 e1 by (simp add: neko_assert_def)
  moreover have "slots_that_fit ?T 8 0 = 0" by (simp add: slots_that_fit_def)
  moreover have "\<not> in_arena 0x1000 8 0x1010" by (simp add: in_arena_def sizeof_ptr_def)
  ultimately show ?thesis by blast
qed

text \<open>
  Claim C4 at the same arena, which holds exactly \<open>N = 0\<close> slots: after the 0 calls of
  \<^verbatim>\<open>Allocate\<close> that should succeed, the next call, the first, should fail with \<open>OutOfMemory\<close>.
  It returns the address \<^verbatim>\<open>0x1000\<close> instead, a 16-byte slot in an arena of 8 bytes, and the call
  after it returns \<^verbatim>\<open>0x1010\<close>, which lies outside the arena; the pool then counts 32 bytes in
  use out of 8.
\<close>

theorem PoolAllocator_Allocate_without_slot:
  "CalculateAlignForwardAdjustment 0x1000 8 = Inr 0 \<and>
   slots_that_fit \<lparr>sizeofT = 16, alignofT = 8\<rparr> 8 0 = 0 \<and>
   \<not> in_arena 0x1000 8 0x1010 \<and>
   (\<forall>m. \<exists>st0 st1 st2.
      PoolAllocator_ctor \<lparr>sizeofT = 16, alignofT = 8\<rparr> 8 0x1000 m = Inr st0 \<and>
      allocate_n \<lparr>sizeofT = 16, alignofT = 8\<rparr> 0 st0 = (Inr [], st0) \<and>
      PoolAllocator_Allocate \<lparr>sizeofT = 16, alignofT = 8\<rparr> 16 8 st0 = (Inr 0x1000, st1) \<and>
      fst (PoolAllocator_Allocate \<lparr>sizeofT = 16, alignofT = 8\<rparr> 16 8 st0) \<noteq> Inl OutOfMemory \<and>
      PoolAllocator_Allocate \<lparr>sizeofT = 16, alignofT = 8\<rparr> 16 8 st1 = (Inr 0x1010, st2) \<and>
      GetUsedMemory (fst st2) = 32 \<and> GetSize (fst st2) = 8)"
proof -
  let ?T = "\<lparr>sizeofT = 16, alignofT = 8\<rparr>"
  let ?J = "unat ((8 - 0) div sizeofT ?T - 1 :: size_t)"
  have big: "\<not> sizeofT ?T < sizeof_ptr" by (simp add: sizeof_ptr_def)
  have adj: "CalculateAlignForwardAdjustment 0x1000 (alignofT ?T) = Inr 0"
    by (simp add: CalculateAlignForwardAdjustment_0x1000_8)
  have J: "?J = 2 ^ LENGTH(64) - 1" by (simp add: unsigned_minus_1_eq_mask mask_eq_exp_minus_1)
  have stop: "slot (0x1000 + 0) (sizeofT ?T) ?J = 0xFF0"
    unfolding J by (simp add: slot_def)
  have e0: "\<exists>k<?J. (0x1000::addr) = slot (0x1000 + 0) (sizeofT ?T) k"
    unfolding J by (rule exI [of _ 0]) simp
  have e1: "\<exists>k<?J. (0x1010::addr) = slot (0x1000 + 0) (sizeofT ?T) k"
    unfolding J by (rule exI [of _ 1]) (simp add: slot_def)
  have "\<exists>st0 st1 st2.
      PoolAllocator_ctor ?T 8 0x1000 m = Inr st0 \<and>
      allocate_n ?T 0 st0 = (Inr [], st0) \<and>
      PoolAllocator_Allocate ?T 16 8 st0 = (Inr 0x1000, st1) \<and>
      fst (PoolAllocator_Allocate ?T 16 8 st0) \<noteq> Inl OutOfMemory \<and>
      PoolAllocator_Allocate ?T 16 8 st1 = (Inr 0x1010, st2) \<and>
      GetUsedMemory (fst st2) = 32 \<and> GetSize (fst st2) = 8" for m
    unfolding PoolAllocator_ctor_closed [OF big adj] stop
    using e0 e1
    by (simp add: neko_assert_def GetUsedMemory_def GetSize_def Allocator_ctor_def
        Allocator.extend_def PoolAllocator.fields_def)
  moreover have "slots_that_fit ?T 8 0 = 0" by (simp add: slots_that_fit_def)
  moreover have "\<not> in_arena 0x1000 8 0x1010" by (simp add: in_arena_def sizeof_ptr_def)
  moreover note CalculateAlignForwardAdjustment_0x1000_8
  ultimately show ?thesis by blast
qed
text \<open>Where at least one slot fits, the constructor does partition the arena as claim C5 says:
  the free list visits the slots in ascending address order, and there are as many as fit.\<close>

lemma PoolAllocator_ctor_partitions:
  assumes big: "sizeof_ptr \<le> sizeofT T"
    and adj: "CalculateAlignForwardAdjustment mem (alignofT T) = Inr adj"
    and one: "1 \<le> slots_that_fit T size' adj"
    and arena: "unat mem + unat size' \<le> 2 ^ 64"
    and mem: "mem \<noteq> nullptr"
  shows "\<exists>a m'. PoolAllocator_ctor T size' mem m = Inr (a, m') \<and>
           free_list m' (freeBlocks_m a)
             (slots (mem + adj) (sizeofT T) (nat (slots_that_fit T size' adj))) \<and>
           sorted_wrt (<) (slots (mem + adj) (sizeofT T) (nat (slots_that_fit T size' adj)))"
proof -
  from big have big': "\<not> sizeofT T < sizeof_ptr" by simp
  then have szpos: "0 < unat (sizeofT T)" by (simp add: word_less_nat_alt sizeof_ptr_def)
  from arena have arena': "unat mem + unat size' \<le> 2 ^ LENGTH(64)" by simp
  from one have fits: "unat adj + unat (sizeofT T) \<le> unat size'"
    by (simp only: slots_that_fit_ge_1 [OF szpos])
  then have "unat adj \<le> unat size'" by simp
  from slots_that_fit_code [OF this, of T]
  have N: "nat (slots_that_fit T size' adj) = unat ((size' - adj) div sizeofT T)"
    by (simp only: nat_int)
  note g = pool_geometry [OF big' fits arena']
  have "unat (mem + adj) + unat ((size' - adj) div sizeofT T) * unat (sizeofT T) \<le> 2 ^ LENGTH(64)"
    using g(7) arena' by simp
  then have "sorted_wrt (<) (slots (mem + adj) (sizeofT T) (unat ((size' - adj) div sizeofT T)))"
    using szpos by (rule slots_ascending)
  with PoolAllocator_ctor_pool [OF big' adj fits arena', of m] mem show ?thesis
    unfolding N by auto
qed

text \<open>The example of the specification: 1024 bytes, 16-byte elements, no alignment loss.\<close>

lemma PoolAllocator_ctor_64_slots:
  "slots_that_fit \<lparr>sizeofT = 16, alignofT = 8\<rparr> 1024 0 = 64"
  by (simp add: slots_that_fit_def)

section \<open>Destruction\<close>

text \<open>
  Claim C8. The destructor of the base class, and with it the destructor of every derived
  class, fails with \<open>LeakAtTeardown\<close> exactly when \<^verbatim>\<open>numAllocations_\<close> or \<^verbatim>\<open>usedMemory_\<close> is not
  zero, and succeeds exactly when both are zero.
\<close>

theorem Allocator_dtor_leak_check:
  "(\<forall>a. ((Allocator_dtor a = Inl LeakAtTeardown)
           = (numAllocations_m a \<noteq> 0 \<or> usedMemory_m a \<noteq> 0)) \<and>
        ((\<exists>a'. Allocator_dtor a = Inr a')
           = (numAllocations_m a = 0 \<and> usedMemory_m a = 0))) \<and>
   (\<forall>l. ((LinearAllocator_dtor l = Inl LeakAtTeardown)
           = (numAllocations_m l \<noteq> 0 \<or> usedMemory_m l \<noteq> 0)) \<and>
        ((\<exists>l'. LinearAllocator_dtor l = Inr l')
           = (numAllocations_m l = 0 \<and> usedMemory_m l = 0))) \<and>
   (\<forall>s. ((StackAllocator_dtor s = Inl LeakAtTeardown)
           = (numAllocations_m s \<noteq> 0 \<or> usedMemory_m s \<noteq> 0)) \<and>
        ((\<exists>s'. StackAllocator_dtor s = Inr s')
           = (numAllocations_m s = 0 \<and> usedMemory_m s = 0))) \<and>
   (\<forall>f. ((FreeListAllocator_dtor f = Inl LeakAtTeardown)
           = (numAllocations_m f \<noteq> 0 \<or> usedMemory_m f \<noteq> 0)) \<and>
        ((\<exists>f'. FreeListAllocator_dtor f = Inr f')
           = (numAllocations_m f = 0 \<and> usedMemory_m f = 0))) \<and>
   (\<forall>p. ((PoolAllocator_dtor p = Inl LeakAtTeardown)
           = (numAllocations_m p \<noteq> 0 \<or> usedMemory_m p \<noteq> 0)) \<and>
        ((\<exists>p'. PoolAllocator_dtor p = Inr p')
           = (numAllocations_m p = 0 \<and> usedMemory_m p = 0))) \<and>
   (\<forall>x. ((ProxyAllocator_dtor x = Inl LeakAtTeardown)
           = (numAllocations_m x \<noteq> 0 \<or> usedMemory_m x \<noteq> 0)) \<and>
        ((\<exists>x'. ProxyAllocator_dtor x = Inr x')
           = (numAllocations_m x = 0 \<and> usedMemory_m x = 0)))"
  by (auto simp: Allocator_dtor_def LinearAllocator_dtor_def StackAllocator_dtor_def
      FreeListAllocator_dtor_def PoolAllocator_dtor_def ProxyAllocator_dtor_def neko_assert_def)

text \<open>Two instances: a pool with one live allocation, and the same pool after it was freed.\<close>

theorem Allocator_dtor_leak_check_witness:
  "PoolAllocator_dtor \<lparr>start_m = 0x1000, size_m = 32, usedMemory_m = 16, numAllocations_m = 1,
      freeBlocks_m = 0x1010\<rparr> = Inl LeakAtTeardown \<and>
   (\<exists>p'. PoolAllocator_dtor \<lparr>start_m = 0x1000, size_m = 32, usedMemory_m = 0,
      numAllocations_m = 0, freeBlocks_m = 0x1000\<rparr> = Inr p')"
proof -
  let ?p1 = "\<lparr>start_m = 0x1000, size_m = 32, usedMemory_m = 16, numAllocations_m = 1,
      freeBlocks_m = 0x1010\<rparr> :: PoolAllocator"
  let ?p2 = "\<lparr>start_m = 0x1000, size_m = 32, usedMemory_m = 0, numAllocations_m = 0,
      freeBlocks_m = 0x1000\<rparr> :: PoolAllocator"
  from Allocator_dtor_leak_check
  have pool: "((PoolAllocator_dtor p = Inl LeakAtTeardown)
           = (numAllocations_m p \<noteq> 0 \<or> usedMemory_m p \<noteq> 0)) \<and>
        ((\<exists>p'. PoolAllocator_dtor p = Inr p')
           = (numAllocations_m p = 0 \<and> usedMemory_m p = 0))" for p
    by (elim conjE allE [of _ p], intro conjI) assumption+
  from pool [of ?p1] have "PoolAllocator_dtor ?p1 = Inl LeakAtTeardown" by simp
  moreover from pool [of ?p2] have "\<exists>p'. PoolAllocator_dtor ?p2 = Inr p'" by simp
  ultimately show ?thesis by (rule conjI)
qed


section \<open>The proxy allocator\<close>









end
